theory Spec2Isabelle
  imports Main "HOL-Library.Word"
begin

section \<open>Values of the program\<close>

text \<open>
  A JavaScript string is a sequence of 16-bit code units; a binary payload (the content
  of a \<^verbatim>\<open>Blob\<close> or of a \<^verbatim>\<open>Uint8Array\<close>) is a sequence of bytes. Every blob of
  \<^verbatim>\<open>src/js/app.js\<close> is built without a type, so a blob is modelled by its bytes alone.
\<close>

type_synonym code_unit = "16 word"
type_synonym js_string = "code_unit list"
type_synonym byte = "8 word"
type_synonym blob = "byte list"

text \<open>An ASCII literal of the source, as a JavaScript string.\<close>

definition str :: "string \<Rightarrow> js_string" where
  "str s = map of_char s"

text \<open>
  The exceptions that the statements of \<^verbatim>\<open>app.js\<close> can throw. \<open>Untyped\<close> is not an
  exception of the platform: it marks a stored array that is valid JSON but has an element
  outside the data model (see \<open>catalog_of\<close> below).
\<close>

datatype error =
    SyntaxError
  | TypeError
  | RangeError
  | InvalidCharacterError
  | QuotaExceededError
  | SecurityError
  | Untyped

text \<open>
  A JavaScript array made by \<^verbatim>\<open>new Array(n)\<close> has \<open>n\<close> holes; a hole is \<open>None\<close>.
  Assigning past the end extends the array with holes.
\<close>

definition new_Array :: "nat \<Rightarrow> 'a option list" where
  "new_Array n = replicate n None"

definition array_set :: "'a option list \<Rightarrow> nat \<Rightarrow> 'a \<Rightarrow> 'a option list" where
  "array_set xs i v =
     (if i < length xs then xs[i := Some v]
      else xs @ replicate (i - length xs) None @ [Some v])"

section \<open>The platform's base64 functions\<close>

text \<open>
  Modelled from the spec: \<^verbatim>\<open>atob\<close> and \<^verbatim>\<open>FileReader.readAsDataURL\<close> are functions of the
  browser, absent from \<^verbatim>\<open>src/\<close>. Section 4.1 of the spec asks for "standard base64" with
  "standard padding rules"; the definitions below are the base64 alphabet and encoding of
  RFC 4648, section 4, and the forgiving-base64 decoding that \<^verbatim>\<open>atob\<close> performs.
\<close>

definition base64_char :: "nat \<Rightarrow> code_unit" where
  "base64_char n =
     of_nat (if n < 26 then 65 + n
             else if n < 52 then 71 + n
             else if n < 62 then n - 4
             else if n = 62 then 43 else 47)"

definition base64_value :: "code_unit \<Rightarrow> nat option" where
  "base64_value c =
     (let n = unat c in
      if 65 \<le> n \<and> n \<le> 90 then Some (n - 65)
      else if 97 \<le> n \<and> n \<le> 122 then Some (n - 71)
      else if 48 \<le> n \<and> n \<le> 57 then Some (n + 4)
      else if n = 43 then Some 62
      else if n = 47 then Some 63
      else None)"

definition pad_char :: code_unit where
  "pad_char = 61"

text \<open>
  RFC 4648: three bytes form a 24-bit group that is written as four 6-bit digits; a final
  group of one byte is padded with zero bits to two digits and \<open>==\<close>, a final group of two
  bytes to three digits and \<open>=\<close>.
\<close>

fun base64_encode :: "blob \<Rightarrow> js_string" where
  "base64_encode [] = []"
| "base64_encode [a] =
     (let n = unat a * 16
      in [base64_char (n div 64), base64_char (n mod 64), pad_char, pad_char])"
| "base64_encode [a, b] =
     (let n = (unat a * 256 + unat b) * 4
      in [base64_char (n div 4096), base64_char (n div 64 mod 64), base64_char (n mod 64),
          pad_char])"
| "base64_encode (a # b # c # rest) =
     (let n = (unat a * 256 + unat b) * 256 + unat c
      in [base64_char (n div 262144), base64_char (n div 4096 mod 64),
          base64_char (n div 64 mod 64), base64_char (n mod 64)] @ base64_encode rest)"

text \<open>
  \<^verbatim>\<open>readAsDataURL\<close> of a blob without a type: browsers write the media type
  \<^verbatim>\<open>application/octet-stream\<close>, then \<^verbatim>\<open>;base64,\<close> and the base64 text of the bytes.
\<close>

definition readAsDataURL :: "blob \<Rightarrow> js_string" where
  "readAsDataURL b = str ''data:application/octet-stream;base64,'' @ base64_encode b"

text \<open>
  Forgiving-base64 decoding (the algorithm of \<^verbatim>\<open>atob\<close>): remove ASCII whitespace; if the
  length is a multiple of four, remove one or two trailing \<open>=\<close>; fail when the length is
  1 modulo 4 or a code unit is outside the alphabet; then collect six bits per character in
  a buffer, emit three bytes whenever it holds 24 bits, and at the end one byte from 12
  bits (the last four discarded) or two bytes from 18 bits (the last two discarded).
\<close>

definition ascii_whitespace :: "code_unit \<Rightarrow> bool" where
  "ascii_whitespace c \<longleftrightarrow> c = 9 \<or> c = 10 \<or> c = 12 \<or> c = 13 \<or> c = 32"

definition remove_padding :: "js_string \<Rightarrow> js_string" where
  "remove_padding d =
     (if length d mod 4 = 0 then
        (if 2 \<le> length d \<and> last d = pad_char \<and> last (butlast d) = pad_char
         then butlast (butlast d)
         else if 1 \<le> length d \<and> last d = pad_char then butlast d
         else d)
      else d)"

fun decode_bits :: "nat list \<Rightarrow> nat \<Rightarrow> nat \<Rightarrow> blob" where
  "decode_bits [] buffer nbits =
     (if nbits = 12 then [of_nat (buffer div 16)]
      else if nbits = 18 then [of_nat (buffer div 4 div 256), of_nat (buffer div 4 mod 256)]
      else [])"
| "decode_bits (n # ns) buffer nbits =
     (let buffer' = buffer * 64 + n
      in if nbits + 6 = 24
         then [of_nat (buffer' div 65536), of_nat (buffer' div 256 mod 256),
               of_nat (buffer' mod 256)] @ decode_bits ns 0 0
         else decode_bits ns buffer' (nbits + 6))"

fun base64_values :: "js_string \<Rightarrow> nat list option" where
  "base64_values [] = Some []"
| "base64_values (c # cs) =
     (case base64_value c of
        None \<Rightarrow> None
      | Some n \<Rightarrow> (case base64_values cs of None \<Rightarrow> None | Some ns \<Rightarrow> Some (n # ns)))"

definition forgiving_base64_decode :: "js_string \<Rightarrow> blob option" where
  "forgiving_base64_decode d0 =
     (let d = remove_padding (filter (\<lambda>c. \<not> ascii_whitespace c) d0)
      in if length d mod 4 = 1 then None
         else (case base64_values d of
                 None \<Rightarrow> None
               | Some ns \<Rightarrow> Some (decode_bits ns 0 0)))"

text \<open>
  \<^verbatim>\<open>atob\<close> throws \<open>InvalidCharacterError\<close> when decoding fails; otherwise it returns the
  binary string whose code units are the decoded bytes.
\<close>

definition atob :: "js_string \<Rightarrow> error + js_string" where
  "atob d =
     (case forgiving_base64_decode d of
        None \<Rightarrow> Inl InvalidCharacterError
      | Some bs \<Rightarrow> Inr (map ucast bs))"

section \<open>\<^verbatim>\<open>base64toBlob\<close> (app.js, lines 148-168)\<close>

definition sliceSize :: nat where
  "sliceSize = 1024"

text \<open>
  \<^verbatim>\<open>byteCharacters[offset].charCodeAt(0)\<close>: an index past the end reads \<^verbatim>\<open>undefined\<close>, and
  the method call on it throws a \<open>TypeError\<close>.
\<close>

definition charCodeAt0 :: "js_string \<Rightarrow> nat \<Rightarrow> error + nat" where
  "charCodeAt0 byteCharacters offset =
     (if offset < length byteCharacters then Inr (unat (byteCharacters ! offset))
      else Inl TypeError)"

text \<open>
  \<^verbatim>\<open>new Uint8Array(bytes)\<close> converts every element to a byte: a number modulo 256, a hole
  (\<^verbatim>\<open>undefined\<close>, hence \<^verbatim>\<open>NaN\<close>) to 0.
\<close>

definition Uint8Array :: "nat option list \<Rightarrow> blob" where
  "Uint8Array bytes = map (\<lambda>x. case x of None \<Rightarrow> 0 | Some n \<Rightarrow> of_nat n) bytes"

text \<open>
  \<^verbatim>\<open>new Blob(parts)\<close> concatenates its parts; a hole of the array is converted to the text
  \<^verbatim>\<open>undefined\<close>.
\<close>

definition blob_part :: "blob option \<Rightarrow> blob" where
  "blob_part p = (case p of None \<Rightarrow> map of_char ''undefined'' | Some b \<Rightarrow> b)"

definition Blob :: "blob option list \<Rightarrow> blob" where
  "Blob parts = concat (map blob_part parts)"

text \<open>The inner loop (lines 160-162), from \<open>offset\<close> and \<open>i\<close> on.\<close>

function fill_bytes ::
  "js_string \<Rightarrow> nat \<Rightarrow> nat \<Rightarrow> nat \<Rightarrow> nat option list \<Rightarrow> error + nat option list" where
  "fill_bytes byteCharacters send offset i bytes =
     (if offset < send then
        (case charCodeAt0 byteCharacters offset of
           Inl e \<Rightarrow> Inl e
         | Inr code \<Rightarrow>
             fill_bytes byteCharacters send (offset + 1) (i + 1) (array_set bytes i code))
      else Inr bytes)"
  by pat_completeness auto
termination
  by (relation "measure (\<lambda>(byteCharacters, send, offset, i, bytes). send - offset)") auto

text \<open>
  The outer loop (lines 155-165), from \<open>sliceIndex\<close> on. \<^verbatim>\<open>new Array(end - begin)\<close> throws
  a \<open>RangeError\<close> on a negative length.
\<close>

function slice_loop ::
  "js_string \<Rightarrow> nat \<Rightarrow> nat \<Rightarrow> blob option list \<Rightarrow> error + blob option list" where
  "slice_loop byteCharacters slicesCount sliceIndex byteArrays =
     (if sliceIndex < slicesCount then
        (let sbegin = sliceIndex * sliceSize;
             send = min (sbegin + sliceSize) (length byteCharacters)
         in if send < sbegin then Inl RangeError
            else (case fill_bytes byteCharacters send sbegin 0 (new_Array (send - sbegin)) of
                    Inl e \<Rightarrow> Inl e
                  | Inr bytes \<Rightarrow>
                      slice_loop byteCharacters slicesCount (sliceIndex + 1)
                        (array_set byteArrays sliceIndex (Uint8Array bytes))))
      else Inr byteArrays)"
  by pat_completeness auto
termination
  by (relation "measure (\<lambda>(byteCharacters, slicesCount, sliceIndex, byteArrays).
        slicesCount - sliceIndex)") auto

declare fill_bytes.simps [simp del]
declare slice_loop.simps [simp del]

text \<open>
  The slices of a binary string that \<^verbatim>\<open>atob\<close> returned; \<open>slicesCount\<close> is
  \<^verbatim>\<open>Math.ceil(bytesLength / sliceSize)\<close>.
\<close>

definition blob_of_byteCharacters :: "js_string \<Rightarrow> error + blob" where
  "blob_of_byteCharacters byteCharacters =
     (let bytesLength = length byteCharacters;
          slicesCount = (bytesLength + (sliceSize - 1)) div sliceSize
      in case slice_loop byteCharacters slicesCount 0 (new_Array slicesCount) of
           Inl e \<Rightarrow> Inl e
         | Inr byteArrays \<Rightarrow> Inr (Blob byteArrays))"

definition base64toBlob :: "js_string \<Rightarrow> error + blob" where
  "base64toBlob base64Data =
     (case atob base64Data of
        Inl e \<Rightarrow> Inl e
      | Inr byteCharacters \<Rightarrow> blob_of_byteCharacters byteCharacters)"

text \<open>
  The decoding that claim C10 compares \<open>base64toBlob\<close> with: no slices, one byte per
  character of the \<^verbatim>\<open>atob\<close> output, in order.
\<close>

definition base64toBlob_unsliced :: "js_string \<Rightarrow> error + blob" where
  "base64toBlob_unsliced base64Data =
     (case atob base64Data of
        Inl e \<Rightarrow> Inl e
      | Inr byteCharacters \<Rightarrow> Inr (map (\<lambda>c. of_nat (unat c)) byteCharacters))"

section \<open>Strings: \<^verbatim>\<open>indexOf\<close> and \<^verbatim>\<open>slice\<close>\<close>

text \<open>
  \<^verbatim>\<open>s.indexOf(pat)\<close>: the least position where \<open>pat\<close> occurs in \<open>s\<close>, or -1.
\<close>

fun index_from :: "js_string \<Rightarrow> js_string \<Rightarrow> int \<Rightarrow> int" where
  "index_from pat [] k = (if pat = [] then k else - 1)"
| "index_from pat (c # cs) k =
     (if take (length pat) (c # cs) = pat then k else index_from pat cs (k + 1))"

definition indexOf :: "js_string \<Rightarrow> js_string \<Rightarrow> int" where
  "indexOf s pat = index_from pat s 0"

text \<open>
  \<^verbatim>\<open>s.slice(start)\<close>: a negative \<open>start\<close> counts from the end, and the position is clamped
  to the string.
\<close>

definition string_slice :: "js_string \<Rightarrow> int \<Rightarrow> js_string" where
  "string_slice s start =
     (let len = int (length s);
          from = (if start < 0 then max (len + start) 0 else min start len)
      in drop (nat from) s)"

section \<open>The platform's JSON functions\<close>

text \<open>
  Modelled from the spec: \<^verbatim>\<open>JSON.stringify\<close> and \<^verbatim>\<open>JSON.parse\<close> are functions of the
  browser, absent from \<^verbatim>\<open>src/\<close>; the spec (sections 3 and 6) only says that the catalog is
  "persisted as a single serialized blob" holding "a serialized array of {name, data}
  objects". The definitions follow ECMA-262: \<open>QuoteJSONString\<close> for the strings that are
  written, and the JSON grammar (whitespace, literals, numbers, strings with escapes,
  arrays, objects) for the text that is read.
\<close>

record entry =
  name :: js_string
  data :: js_string

definition hex_digit :: "nat \<Rightarrow> code_unit" where
  "hex_digit n = of_nat (if n < 10 then 48 + n else 87 + n)"

definition unicode_escape :: "code_unit \<Rightarrow> js_string" where
  "unicode_escape c =
     (let n = unat c
      in [92, 117, hex_digit (n div 4096), hex_digit (n div 256 mod 16),
          hex_digit (n div 16 mod 16), hex_digit (n mod 16)])"

definition high_surrogate :: "code_unit \<Rightarrow> bool" where
  "high_surrogate c \<longleftrightarrow> 55296 \<le> unat c \<and> unat c \<le> 56319"

definition low_surrogate :: "code_unit \<Rightarrow> bool" where
  "low_surrogate c \<longleftrightarrow> 56320 \<le> unat c \<and> unat c \<le> 57343"

text \<open>
  A code unit that is not a surrogate: the two-character escapes of backspace, tab, line
  feed, form feed, carriage return, the double quote and the backslash; \<^verbatim>\<open>\u00XX\<close> for
  the other control characters; every other code unit as it is.
\<close>

definition quote_unit :: "code_unit \<Rightarrow> js_string" where
  "quote_unit c =
     (if c = 8 then [92, 98]
      else if c = 9 then [92, 116]
      else if c = 10 then [92, 110]
      else if c = 12 then [92, 102]
      else if c = 13 then [92, 114]
      else if c = 34 then [92, 34]
      else if c = 92 then [92, 92]
      else if unat c < 32 then unicode_escape c
      else [c])"

text \<open>
  A high surrogate followed by a low surrogate is one code point and is written as it is;
  a surrogate on its own is written as a \<^verbatim>\<open>\uXXXX\<close> escape.
\<close>

fun quote_units :: "js_string \<Rightarrow> js_string" where
  "quote_units [] = []"
| "quote_units [c] =
     (if high_surrogate c \<or> low_surrogate c then unicode_escape c else quote_unit c)"
| "quote_units (c # d # cs) =
     (if high_surrogate c \<and> low_surrogate d then c # d # quote_units cs
      else if high_surrogate c \<or> low_surrogate c then unicode_escape c @ quote_units (d # cs)
      else quote_unit c @ quote_units (d # cs))"

definition QuoteJSONString :: "js_string \<Rightarrow> js_string" where
  "QuoteJSONString s = [34] @ quote_units s @ [34]"

text \<open>
  \<^verbatim>\<open>JSON.stringify\<close> of the catalog: an array of objects with the properties \<open>name\<close> and
  \<open>data\<close>, in the order in which line 104 creates them.
\<close>

definition stringify_entry :: "entry \<Rightarrow> js_string" where
  \<open>stringify_entry e =
     str ''{"name":'' @ QuoteJSONString (name e) @ str '',"data":'' @ QuoteJSONString (data e)
     @ str ''}''\<close>

fun join_comma :: "js_string list \<Rightarrow> js_string" where
  "join_comma [] = []"
| "join_comma [x] = x"
| "join_comma (x # y # ys) = x @ str '','' @ join_comma (y # ys)"

definition JSON_stringify :: "entry list \<Rightarrow> js_string" where
  "JSON_stringify es = str ''['' @ join_comma (map stringify_entry es) @ str '']''"

text \<open>
  A parsed JSON value. A number keeps the text of its literal (its floating-point value is
  not modelled); an object keeps its properties in the order of their creation.
\<close>

datatype json =
    JNull
  | JBool bool
  | JNumber js_string
  | JString js_string
  | JArray "json list"
  | JObject "(js_string \<times> json) list"

definition json_whitespace :: "code_unit \<Rightarrow> bool" where
  "json_whitespace c \<longleftrightarrow> c = 9 \<or> c = 10 \<or> c = 13 \<or> c = 32"

definition skip_ws :: "js_string \<Rightarrow> js_string" where
  "skip_ws s = dropWhile json_whitespace s"

definition hex_value :: "code_unit \<Rightarrow> nat option" where
  "hex_value c =
     (let n = unat c in
      if 48 \<le> n \<and> n \<le> 57 then Some (n - 48)
      else if 65 \<le> n \<and> n \<le> 70 then Some (n - 55)
      else if 97 \<le> n \<and> n \<le> 102 then Some (n - 87)
      else None)"

text \<open>The character after a backslash, other than \<open>u\<close>.\<close>

definition unescape :: "code_unit \<Rightarrow> code_unit option" where
  "unescape e =
     (if e = 34 then Some 34
      else if e = 92 then Some 92
      else if e = 47 then Some 47
      else if e = 98 then Some 8
      else if e = 102 then Some 12
      else if e = 110 then Some 10
      else if e = 114 then Some 13
      else if e = 116 then Some 9
      else None)"

text \<open>
  The rest of a string literal after its opening quote: the string it denotes and the text
  after its closing quote. A control character, an unknown escape or a missing closing
  quote is an error.
\<close>

fun scan_string :: "js_string \<Rightarrow> (js_string \<times> js_string) option" where
  "scan_string [] = None"
| "scan_string (c # cs) =
     (if c = 34 then Some ([], cs)
      else if c = 92 then
        (case cs of
           [] \<Rightarrow> None
         | e # es \<Rightarrow>
             if e = 117 then
               (case es of
                  h1 # h2 # h3 # h4 # rest \<Rightarrow>
                    (case (hex_value h1, hex_value h2, hex_value h3, hex_value h4) of
                       (Some x1, Some x2, Some x3, Some x4) \<Rightarrow>
                         (case scan_string rest of
                            None \<Rightarrow> None
                          | Some (v, r) \<Rightarrow>
                              Some (of_nat (((x1 * 16 + x2) * 16 + x3) * 16 + x4) # v, r))
                     | _ \<Rightarrow> None)
                | _ \<Rightarrow> None)
             else
               (case unescape e of
                  None \<Rightarrow> None
                | Some u \<Rightarrow>
                    (case scan_string es of None \<Rightarrow> None | Some (v, r) \<Rightarrow> Some (u # v, r))))
      else if unat c < 32 then None
      else (case scan_string cs of None \<Rightarrow> None | Some (v, r) \<Rightarrow> Some (c # v, r)))"

text \<open>
  A number literal: an optional minus, \<open>0\<close> or digits that do not start with \<open>0\<close>, an
  optional fraction, an optional exponent.
\<close>

definition is_digit :: "code_unit \<Rightarrow> bool" where
  "is_digit c \<longleftrightarrow> 48 \<le> unat c \<and> unat c \<le> 57"

definition scan_digits :: "js_string \<Rightarrow> (js_string \<times> js_string) option" where
  "scan_digits s =
     (if takeWhile is_digit s = [] then None
      else Some (takeWhile is_digit s, dropWhile is_digit s))"

definition scan_int :: "js_string \<Rightarrow> (js_string \<times> js_string) option" where
  "scan_int s =
     (case s of
        [] \<Rightarrow> None
      | c # cs \<Rightarrow> if c = 48 then Some ([c], cs) else scan_digits s)"

definition scan_frac :: "js_string \<Rightarrow> (js_string \<times> js_string) option" where
  "scan_frac s =
     (case s of
        [] \<Rightarrow> Some ([], s)
      | c # cs \<Rightarrow>
          if c = 46 then
            (case scan_digits cs of None \<Rightarrow> None | Some (ds, r) \<Rightarrow> Some (c # ds, r))
          else Some ([], s))"

definition scan_exp :: "js_string \<Rightarrow> (js_string \<times> js_string) option" where
  "scan_exp s =
     (case s of
        [] \<Rightarrow> Some ([], s)
      | c # cs \<Rightarrow>
          if c = 101 \<or> c = 69 then
            (case cs of
               [] \<Rightarrow> None
             | d # ds \<Rightarrow>
                 if d = 43 \<or> d = 45 then
                   (case scan_digits ds of None \<Rightarrow> None | Some (x, r) \<Rightarrow> Some (c # d # x, r))
                 else
                   (case scan_digits cs of None \<Rightarrow> None | Some (x, r) \<Rightarrow> Some (c # x, r)))
          else Some ([], s))"

definition scan_sign :: "js_string \<Rightarrow> js_string \<times> js_string" where
  "scan_sign s = (case s of [] \<Rightarrow> ([], s) | c # cs \<Rightarrow> if c = 45 then ([c], cs) else ([], s))"

definition scan_number :: "js_string \<Rightarrow> (js_string \<times> js_string) option" where
  "scan_number s =
     (case scan_sign s of
        (sign, s1) \<Rightarrow>
          (case scan_int s1 of
             None \<Rightarrow> None
           | Some (i, s2) \<Rightarrow>
               (case scan_frac s2 of
                  None \<Rightarrow> None
                | Some (f, s3) \<Rightarrow>
                    (case scan_exp s3 of
                       None \<Rightarrow> None
                     | Some (x, s4) \<Rightarrow> Some (sign @ i @ f @ x, s4)))))"

text \<open>A property name and its colon.\<close>

definition scan_key :: "js_string \<Rightarrow> (js_string \<times> js_string) option" where
  "scan_key s =
     (case skip_ws s of
        [] \<Rightarrow> None
      | c # cs \<Rightarrow>
          if c = 34 then
            (case scan_string cs of
               None \<Rightarrow> None
             | Some (k, r) \<Rightarrow>
                 (case skip_ws r of
                    [] \<Rightarrow> None
                  | c' # r' \<Rightarrow> if c' = 58 then Some (k, r') else None))
          else None)"

text \<open>
  Creating the property \<open>k\<close> of an object: a property that exists keeps its place and takes
  the new value, as for a repeated name in a JSON text.
\<close>

fun put :: "js_string \<Rightarrow> json \<Rightarrow> (js_string \<times> json) list \<Rightarrow> (js_string \<times> json) list" where
  "put k v [] = [(k, v)]"
| "put k v ((k', v') # kvs) = (if k' = k then (k, v) # kvs else (k', v') # put k v kvs)"

text \<open>
  The parser keeps the arrays and objects that are still open on a stack: \<open>parse_value\<close>
  reads the next value, \<open>parse_after\<close> continues after a complete value.
\<close>

datatype frame =
    InArray "json list"
  | InObject "(js_string \<times> json) list" js_string

lemma skip_ws_length: "length (skip_ws s) \<le> length s"
  by (simp add: skip_ws_def length_dropWhile_le)

function (sequential) parse_value :: "frame list \<Rightarrow> js_string \<Rightarrow> error + json"
  and parse_after :: "json \<Rightarrow> frame list \<Rightarrow> js_string \<Rightarrow> error + json" where
  "parse_value st s =
     (case skip_ws s of
        [] \<Rightarrow> Inl SyntaxError
      | c # cs \<Rightarrow>
          if c = 91 then
            (case skip_ws cs of
               [] \<Rightarrow> Inl SyntaxError
             | c' # cs' \<Rightarrow>
                 if c' = 93 then parse_after (JArray []) st cs'
                 else parse_value (InArray [] # st) cs)
          else if c = 123 then
            (case skip_ws cs of
               [] \<Rightarrow> Inl SyntaxError
             | c' # cs' \<Rightarrow>
                 if c' = 125 then parse_after (JObject []) st cs'
                 else (case scan_key cs of
                         None \<Rightarrow> Inl SyntaxError
                       | Some (k, r) \<Rightarrow> parse_value (InObject [] k # st) r))
          else if c = 34 then
            (case scan_string cs of
               None \<Rightarrow> Inl SyntaxError
             | Some (v, r) \<Rightarrow> parse_after (JString v) st r)
          else if c = 45 \<or> is_digit c then
            (case scan_number (c # cs) of
               None \<Rightarrow> Inl SyntaxError
             | Some (v, r) \<Rightarrow> parse_after (JNumber v) st r)
          else if take 4 (c # cs) = str ''null'' then parse_after JNull st (drop 4 (c # cs))
          else if take 4 (c # cs) = str ''true'' then parse_after (JBool True) st (drop 4 (c # cs))
          else if take 5 (c # cs) = str ''false'' then
            parse_after (JBool False) st (drop 5 (c # cs))
          else Inl SyntaxError)"
| "parse_after v [] s = (if skip_ws s = [] then Inr v else Inl SyntaxError)"
| "parse_after v (InArray acc # st) s =
     (case skip_ws s of
        [] \<Rightarrow> Inl SyntaxError
      | c # cs \<Rightarrow>
          if c = 44 then parse_value (InArray (acc @ [v]) # st) cs
          else if c = 93 then parse_after (JArray (acc @ [v])) st cs
          else Inl SyntaxError)"
| "parse_after v (InObject acc k # st) s =
     (case skip_ws s of
        [] \<Rightarrow> Inl SyntaxError
      | c # cs \<Rightarrow>
          if c = 44 then
            (case scan_key cs of
               None \<Rightarrow> Inl SyntaxError
             | Some (k', r) \<Rightarrow> parse_value (InObject (put k v acc) k' # st) r)
          else if c = 125 then parse_after (JObject (put k v acc)) st cs
          else Inl SyntaxError)"
  by pat_completeness auto
text \<open>Every scanner returns a shorter rest, so every call of the parser is on a shorter text.\<close>

termination
proof -
  have skip_ws_length: "length (skip_ws s) \<le> length s" for s
    by (simp add: skip_ws_def length_dropWhile_le)
  have scan_string_length: "scan_string s = Some (v, r) \<Longrightarrow> length r < length s" for s v r
  proof (induction "length s" arbitrary: s v r rule: less_induct)
    case less
    show ?case
    proof (cases s)
      case Nil
      with less.prems show ?thesis by simp
    next
      case (Cons c cs)
      have ih: "\<And>t v' r'. length t < length s \<Longrightarrow> scan_string t = Some (v', r')
          \<Longrightarrow> length r' < length t"
        using less.hyps by blast
      from less.prems show ?thesis
        unfolding Cons
        by (auto split: if_splits list.splits option.splits dest!: ih[unfolded Cons, rotated])
    qed
  qed
  have scan_digits_length: "scan_digits s = Some (v, r) \<Longrightarrow> length r < length s" for s v r
    unfolding scan_digits_def
    by (cases s) (auto split: if_splits intro: le_imp_less_Suc length_dropWhile_le)
  have scan_int_length: "scan_int s = Some (v, r) \<Longrightarrow> length r < length s" for s v r
    unfolding scan_int_def
    by (auto split: list.splits if_splits dest: scan_digits_length)
  have scan_frac_length: "scan_frac s = Some (v, r) \<Longrightarrow> length r \<le> length s" for s v r
    unfolding scan_frac_def
    by (auto split: list.splits if_splits option.splits dest: scan_digits_length)
  have scan_exp_length: "scan_exp s = Some (v, r) \<Longrightarrow> length r \<le> length s" for s v r
    unfolding scan_exp_def
    by (auto split: list.splits if_splits option.splits dest: scan_digits_length)
  have scan_sign_length: "scan_sign s = (v, r) \<Longrightarrow> length r \<le> length s" for s v r
    unfolding scan_sign_def
    by (auto split: list.splits if_splits)
  have scan_number_length: "scan_number s = Some (v, r) \<Longrightarrow> length r < length s" for s v r
    unfolding scan_number_def
    by (auto split: prod.splits option.splits
        dest!: scan_sign_length scan_int_length scan_frac_length scan_exp_length)
  have scan_key_length: "length r < length s" if "scan_key s = Some (k, r)" for s k r
  proof -
    from that obtain c cs r0 c' where
      s1: "skip_ws s = c # cs" and s2: "scan_string cs = Some (k, r0)"
      and s3: "skip_ws r0 = c' # r"
      unfolding scan_key_def
      by (auto split: list.splits if_splits option.splits)
    have "length r < length (skip_ws r0)" using s3 by simp
    also have "\<dots> \<le> length r0" by (rule skip_ws_length)
    also have "\<dots> < length cs" using s2 by (rule scan_string_length)
    also have "\<dots> < length (skip_ws s)" using s1 by simp
    also have "\<dots> \<le> length s" by (rule skip_ws_length)
    finally show ?thesis .
  qed
  show ?thesis
  proof (relation "measure (\<lambda>x. case x of Inl (st, s) \<Rightarrow> length s | Inr (v, st, s) \<Rightarrow> length s)",
      goal_cases)
    case 1
    show ?case by simp
  next
    case (2 st s c cs c' cs')
    have "length (skip_ws cs) \<le> length cs" "length (skip_ws s) \<le> length s"
      by (rule skip_ws_length)+
    with 2 show ?case by simp
  next
    case (3 st s c cs c' cs')
    have "length (skip_ws s) \<le> length s" by (rule skip_ws_length)
    with 3 show ?case by simp
  next
    case (4 st s c cs c' cs')
    have "length (skip_ws cs) \<le> length cs" "length (skip_ws s) \<le> length s"
      by (rule skip_ws_length)+
    with 4 show ?case by simp
  next
    case (5 st s c cs c' cs' x k r)
    have "length (skip_ws s) \<le> length s" by (rule skip_ws_length)
    moreover have "length r < length cs" using 5 by (auto dest: scan_key_length)
    ultimately show ?case using 5 by simp
  next
    case (6 st s c cs x v r)
    have "length (skip_ws s) \<le> length s" by (rule skip_ws_length)
    moreover have "length r < length cs" using 6 by (auto dest: scan_string_length)
    ultimately show ?case using 6 by simp
  next
    case (7 st s c cs x v r)
    have "length (skip_ws s) \<le> length s" by (rule skip_ws_length)
    moreover have "length r < length (c # cs)" using 7 by (auto dest: scan_number_length)
    ultimately show ?case using 7 by simp
  next
    case (8 st s c cs)
    have "length (skip_ws s) \<le> length s" by (rule skip_ws_length)
    with 8 show ?case by simp
  next
    case (9 st s c cs)
    have "length (skip_ws s) \<le> length s" by (rule skip_ws_length)
    with 9 show ?case by simp
  next
    case (10 st s c cs)
    have "length (skip_ws s) \<le> length s" by (rule skip_ws_length)
    with 10 show ?case by simp
  next
    case (11 v acc st s c cs)
    have "length (skip_ws s) \<le> length s" by (rule skip_ws_length)
    with 11 show ?case by simp
  next
    case (12 v acc st s c cs)
    have "length (skip_ws s) \<le> length s" by (rule skip_ws_length)
    with 12 show ?case by simp
  next
    case (13 v acc k st s c cs x k' r)
    have "length (skip_ws s) \<le> length s" by (rule skip_ws_length)
    moreover have "length r < length cs" using 13 by (auto dest: scan_key_length)
    ultimately show ?case using 13 by simp
  next
    case (14 v acc k st s c cs)
    have "length (skip_ws s) \<le> length s" by (rule skip_ws_length)
    with 14 show ?case by simp
  qed
qed

definition JSON_parse :: "js_string \<Rightarrow> error + json" where
  "JSON_parse text = parse_value [] text"

text \<open>
  \<^verbatim>\<open>JSON.parse\<close> converts its argument to a string first; \<^verbatim>\<open>getItem\<close> returns \<^verbatim>\<open>null\<close>
  for a missing key, which becomes the text \<^verbatim>\<open>null\<close>.
\<close>

definition ToString_nullable :: "js_string option \<Rightarrow> js_string" where
  "ToString_nullable x = (case x of None \<Rightarrow> str ''null'' | Some s \<Rightarrow> s)"

section \<open>The platform's \<^verbatim>\<open>localStorage\<close>\<close>

text \<open>
  Modelled from the spec: \<^verbatim>\<open>localStorage\<close> is the browser's "persistence store", absent
  from \<^verbatim>\<open>src/\<close>: a map from keys to strings, with a quota that the browser decides.
  \<open>admits\<close> tells which contents the quota accepts; \<^verbatim>\<open>setItem\<close> throws
  \<open>QuotaExceededError\<close> and changes nothing when the new content is refused ("private
  browsing, quota exceeded, storage disabled", spec section 4.2).
\<close>

record storage =
  items :: "js_string \<rightharpoonup> js_string"
  admits :: "(js_string \<rightharpoonup> js_string) \<Rightarrow> bool"

definition setItem :: "js_string \<Rightarrow> js_string \<Rightarrow> storage \<Rightarrow> error + storage" where
  "setItem k v st =
     (if admits st ((items st)(k \<mapsto> v)) then Inr (st\<lparr>items := (items st)(k \<mapsto> v)\<rparr>)
      else Inl QuotaExceededError)"

definition removeItem :: "js_string \<Rightarrow> storage \<Rightarrow> storage" where
  "removeItem k st = st\<lparr>items := (items st)(k := None)\<rparr>"

definition getItem :: "js_string \<Rightarrow> storage \<Rightarrow> js_string option" where
  "getItem k st = items st k"

section \<open>The state of the page\<close>

text \<open>
  The objects of the browser that \<^verbatim>\<open>app.js\<close> reads and writes, and its four variables
  (lines 5-10). \<open>localStorage\<close> is \<open>None\<close> when reading the global throws; \<open>mediaDevices\<close>
  tells whether \<^verbatim>\<open>navigator.mediaDevices\<close> exists; \<open>mediaRecorder\<close> is \<open>None\<close> while the
  variable is \<^verbatim>\<open>undefined\<close>, and otherwise holds the state of the recorder it refers to.
\<close>

record button =
  textContent :: js_string
  background :: js_string

record card =
  label :: js_string
  soundBlob :: blob

datatype recorder_state = Inactive | Recording

record app =
  localStorage :: "storage option"
  mediaDevices :: bool
  recordBtn :: button
  boardEl :: "card list"
  hasLocalStorage :: bool
  recording :: bool
  mediaRecorder :: "recorder_state option"
  sounds :: "entry list"

section \<open>\<^verbatim>\<open>checkForLocalStorage\<close> (app.js, lines 222-233)\<close>

text \<open>
  The result and the storage afterwards. Every exception of the \<^verbatim>\<open>try\<close> block is caught.
\<close>

definition checkForLocalStorage :: "storage option \<Rightarrow> bool \<times> storage option" where
  "checkForLocalStorage ls =
     (let test = str ''test''
      in case ls of
           None \<Rightarrow> (False, None)
         | Some st \<Rightarrow>
             (case setItem test test st of
                Inl e \<Rightarrow> (False, Some st)
              | Inr st' \<Rightarrow> (True, Some (removeItem test st'))))"

section \<open>\<^verbatim>\<open>createSoundboardButton\<close> (app.js, lines 126-141)\<close>

text \<open>A card with the name and the sound is added at the end of the board.\<close>

definition createSoundboardButton :: "js_string \<Rightarrow> blob \<Rightarrow> app \<Rightarrow> app" where
  "createSoundboardButton nm b s = s\<lparr>boardEl := boardEl s @ [\<lparr>label = nm, soundBlob = b\<rparr>]\<rparr>"

section \<open>\<^verbatim>\<open>initUI\<close>: loading the catalog (app.js, lines 15-24)\<close>

text \<open>
  The data model of the spec (section 3): a catalog is an array of objects that have the
  properties \<open>name\<close> and \<open>data\<close>, both strings, created in this order, as line 104 creates
  them and \<open>JSON_stringify\<close> writes them. An array with an element of another shape is
  outside the model: on it the dynamically typed program either throws (\<^verbatim>\<open>atob\<close> on a
  missing \<open>data\<close>, a property of \<^verbatim>\<open>null\<close>) or goes on with values that are not entries,
  and \<open>initUI\<close> reports \<open>Untyped\<close> for both.
\<close>

fun entry_of :: "json \<Rightarrow> entry option" where
  "entry_of (JObject [(k1, JString n), (k2, JString d)]) =
     (if k1 = str ''name'' \<and> k2 = str ''data'' then Some \<lparr>name = n, data = d\<rparr> else None)"
| "entry_of _ = None"

fun catalog_of :: "json list \<Rightarrow> entry list option" where
  "catalog_of [] = Some []"
| "catalog_of (x # xs) =
     (case entry_of x of
        None \<Rightarrow> None
      | Some e \<Rightarrow> (case catalog_of xs of None \<Rightarrow> None | Some es \<Rightarrow> Some (e # es)))"

text \<open>
  Line 23: \<^verbatim>\<open>sounds.map(sound => createSoundboardButton(sound.name,
  base64toBlob(sound.data)))\<close>, entry by entry; an exception of \<^verbatim>\<open>atob\<close> ends it.
\<close>

fun load_buttons :: "entry list \<Rightarrow> app \<Rightarrow> error + app" where
  "load_buttons [] s = Inr s"
| "load_buttons (e # es) s =
     (case base64toBlob (data e) of
        Inl err \<Rightarrow> Inl err
      | Inr b \<Rightarrow> load_buttons es (createSoundboardButton (name e) b s))"

text \<open>
  Whether a number is falsy. \<^verbatim>\<open>JSON.parse\<close> gives the double that is nearest to the value
  of the literal, a tie going to the even mantissa, and the zeros are the falsy numbers.
  With the digits \<open>m\<close> of the integer part and of the fraction, and the exponent \<open>e\<close> less
  the number of digits of the fraction, the value is \<open>m * 10 ^ e\<close>; its nearest double is
  zero when the value is at most \<open>2 ^ -1075\<close>, the half of the least positive double.
\<close>

definition digits_value :: "js_string \<Rightarrow> int" where
  "digits_value ds = foldl (\<lambda>n c. 10 * n + (uint c - 48)) 0 ds"

definition exponent_value :: "js_string \<Rightarrow> int" where
  "exponent_value x =
     (case x of
        [] \<Rightarrow> 0
      | c # r \<Rightarrow>
          (case r of
             [] \<Rightarrow> 0
           | d # ds \<Rightarrow>
               if d = 45 then - digits_value ds
               else if d = 43 then digits_value ds
               else digits_value r))"

definition number_is_zero :: "js_string \<Rightarrow> bool" where
  "number_is_zero t =
     (case scan_sign t of
        (sign, t1) \<Rightarrow>
          (case scan_int t1 of
             None \<Rightarrow> False
           | Some (i, t2) \<Rightarrow>
               (case scan_frac t2 of
                  None \<Rightarrow> False
                | Some (f, t3) \<Rightarrow>
                    (case scan_exp t3 of
                       None \<Rightarrow> False
                     | Some (x, t4) \<Rightarrow>
                         (let m = digits_value (i @ tl f);
                              e = exponent_value x - int (length (tl f))
                          in m = 0 \<or> (e < 0 \<and> m * 2 ^ 1075 \<le> 10 ^ nat (- e)))))))"

text \<open>
  Line 20: \<^verbatim>\<open>sounds = JSON.parse(localStorage.getItem("sounds")) || []\<close>. \<^verbatim>\<open>JSON.parse\<close>
  throws a \<open>SyntaxError\<close> on a text that is not JSON, and no statement catches it. The
  values \<^verbatim>\<open>null\<close>, \<^verbatim>\<open>false\<close>, zero and the empty string are falsy and give the empty array;
  on \<^verbatim>\<open>true\<close>, another number, a non-empty string or an object, \<^verbatim>\<open>sounds.map\<close> is not a
  function.
  An exception ends the script: the click handler of line 29 is not bound. The result is
  then the exception alone, without the state that the page keeps.
\<close>

definition initUI :: "app \<Rightarrow> error + app" where
  "initUI s =
     (if hasLocalStorage s then
        (case localStorage s of
           None \<Rightarrow> Inl SecurityError
         | Some st \<Rightarrow>
             (case JSON_parse (ToString_nullable (getItem (str ''sounds'') st)) of
                Inl err \<Rightarrow> Inl err
              | Inr JNull \<Rightarrow> Inr (s\<lparr>sounds := []\<rparr>)
              | Inr (JBool b) \<Rightarrow> if b then Inl TypeError else Inr (s\<lparr>sounds := []\<rparr>)
              | Inr (JString t) \<Rightarrow> if t = [] then Inr (s\<lparr>sounds := []\<rparr>) else Inl TypeError
              | Inr (JObject kvs) \<Rightarrow> Inl TypeError
              | Inr (JNumber t) \<Rightarrow>
                  if number_is_zero t then Inr (s\<lparr>sounds := []\<rparr>) else Inl TypeError
              | Inr (JArray xs) \<Rightarrow>
                  (case catalog_of xs of
                     None \<Rightarrow> Inl Untyped
                   | Some es \<Rightarrow> load_buttons es (s\<lparr>sounds := es\<rparr>))))
      else Inr s)"

text \<open>
  Lines 1-10: the state in which \<open>initUI\<close> starts. The text of the record button and the
  cards of the board come from the page.
\<close>

definition start :: "storage option \<Rightarrow> bool \<Rightarrow> button \<Rightarrow> card list \<Rightarrow> app" where
  "start ls md btn board =
     (case checkForLocalStorage ls of
        (has, ls') \<Rightarrow>
          \<lparr>localStorage = ls', mediaDevices = md, recordBtn = btn, boardEl = board,
           hasLocalStorage = has, recording = False, mediaRecorder = None, sounds = []\<rparr>)"

text \<open>The script from its first line to the end of \<open>initUI\<close>.\<close>

definition script :: "storage option \<Rightarrow> bool \<Rightarrow> button \<Rightarrow> card list \<Rightarrow> error + app" where
  "script ls md btn board = initUI (start ls md btn board)"

section \<open>The record button (app.js, lines 29-118)\<close>

text \<open>
  The click handler. \<^verbatim>\<open>mediaRecorder.stop()\<close> leaves the recorder inactive; the request
  \<^verbatim>\<open>getUserMedia\<close> of line 66 is answered later, by \<open>getUserMedia_then\<close>, or never (the
  promise is rejected and the source has no handler for that).
\<close>

definition recordBtn_onclick :: "app \<Rightarrow> app" where
  "recordBtn_onclick s =
     (if \<not> mediaDevices s then s
      else if recording s then
        (case mediaRecorder s of
           None \<Rightarrow> s
         | Some r \<Rightarrow>
             s\<lparr>recording := False,
               recordBtn := (recordBtn s)\<lparr>textContent := str ''Record New Sound'',
                                         background := []\<rparr>,
               mediaRecorder := Some Inactive\<rparr>)
      else
        s\<lparr>recording := True,
          recordBtn := (recordBtn s)\<lparr>textContent := str ''Stop Recording''\<rparr>\<rparr>)"

text \<open>Lines 67-77: the stream is granted, a recorder is created and started.\<close>

definition getUserMedia_then :: "app \<Rightarrow> app" where
  "getUserMedia_then s =
     s\<lparr>mediaRecorder := Some Recording,
       recordBtn := (recordBtn s)\<lparr>background := str ''red''\<rparr>\<rparr>"

text \<open>
  Line 84: \<^verbatim>\<open>prompt(...) || ""\<close>. The prompt returns \<^verbatim>\<open>null\<close> (here \<open>None\<close>) when it is
  cancelled; \<^verbatim>\<open>null\<close> and the empty string are falsy.
\<close>

definition prompt_name :: "js_string option \<Rightarrow> js_string" where
  "prompt_name answer = (case answer of None \<Rightarrow> [] | Some t \<Rightarrow> if t = [] then [] else t)"

text \<open>
  Lines 79-94, the handler \<^verbatim>\<open>mediaRecorder.onstop\<close>, for the chunks that the recorder
  delivered and the answer to the prompt: the new state, and the name and the blob that
  the handler of the reader will see.
\<close>

definition mediaRecorder_onstop ::
  "blob list \<Rightarrow> js_string option \<Rightarrow> app \<Rightarrow> app \<times> js_string \<times> blob" where
  "mediaRecorder_onstop chunks answer s =
     (let nm = prompt_name answer;
          b = Blob (map Some chunks)
      in (createSoundboardButton nm b s, nm, b))"

text \<open>
  Lines 104-113, "append" in the spec: the entry is pushed, then the whole array is written
  under the key \<open>sounds\<close> when \<open>hasLocalStorage\<close> is set. The result is the exception that
  leaves the handler, if any, and the state.
\<close>

definition append_entry :: "entry \<Rightarrow> app \<Rightarrow> error option \<times> app" where
  "append_entry e s =
     (let s1 = s\<lparr>sounds := sounds s @ [e]\<rparr>
      in if hasLocalStorage s1 then
           (case localStorage s1 of
              None \<Rightarrow> (Some SecurityError, s1)
            | Some st \<Rightarrow>
                (case setItem (str ''sounds'') (JSON_stringify (sounds s1)) st of
                   Inl err \<Rightarrow> (Some err, s1)
                 | Inr st' \<Rightarrow> (None, s1\<lparr>localStorage := Some st'\<rparr>)))
         else (None, s1))"

text \<open>Lines 100-101: the text after the first \<^verbatim>\<open>base64,\<close> of the data URL.\<close>

definition strip_data_url :: "js_string \<Rightarrow> js_string" where
  "strip_data_url base64data =
     (let start = str ''base64,''
      in string_slice base64data (indexOf base64data start + int (length start)))"

text \<open>Lines 95-114, the handler \<^verbatim>\<open>reader.onloadend\<close>, for a name and the result of the reader.\<close>

definition reader_onloadend :: "js_string \<Rightarrow> js_string \<Rightarrow> app \<Rightarrow> error option \<times> app" where
  "reader_onloadend nm result s =
     append_entry \<lparr>name = nm, data = strip_data_url result\<rparr> s"

text \<open>
  A recording from the stop of the recorder to the end of the reader: \<open>onstop\<close>, then
  \<^verbatim>\<open>readAsDataURL(blob)\<close>, then \<open>onloadend\<close>.
\<close>

definition save_recording :: "blob list \<Rightarrow> js_string option \<Rightarrow> app \<Rightarrow> error option \<times> app" where
  "save_recording chunks answer s =
     (case mediaRecorder_onstop chunks answer s of
        (s1, nm, b) \<Rightarrow> reader_onloadend nm (readAsDataURL b) s1)"

section \<open>Example values\<close>

text \<open>
  A quota that accepts every content and one that accepts none (a browser whose storage
  is disabled), a store that holds at most the key \<open>sounds\<close>, a store that accepts nothing,
  and the record button of a page.
\<close>

definition unlimited :: "(js_string \<rightharpoonup> js_string) \<Rightarrow> bool" where
  "unlimited m = True"

definition full :: "(js_string \<rightharpoonup> js_string) \<Rightarrow> bool" where
  "full m = False"

definition store_of :: "js_string option \<Rightarrow> storage" where
  "store_of v = \<lparr>items = (\<lambda>k. if k = str ''sounds'' then v else None), admits = unlimited\<rparr>"

definition full_store :: storage where
  "full_store = \<lparr>items = (\<lambda>k. None), admits = full\<rparr>"

definition idle_button :: button where
  "idle_button = \<lparr>textContent = str ''Record New Sound'', background = []\<rparr>"

text \<open>
  A quota of \<open>n\<close> characters for the values stored under the keys \<open>sounds\<close> and \<open>test\<close>, and
  the store with this quota that holds at most the key \<open>sounds\<close>.
\<close>

definition usage :: "(js_string \<rightharpoonup> js_string) \<Rightarrow> nat" where
  "usage m =
     (case m (str ''sounds'') of None \<Rightarrow> 0 | Some v \<Rightarrow> length v)
     + (case m (str ''test'') of None \<Rightarrow> 0 | Some v \<Rightarrow> length v)"

definition capped_store :: "nat \<Rightarrow> js_string option \<Rightarrow> storage" where
  "capped_store n v =
     \<lparr>items = (\<lambda>k. if k = str ''sounds'' then v else None), admits = (\<lambda>m. usage m \<le> n)\<rparr>"

text \<open>
  A session of the page on a store: the state after the first lines of the script. The
  catalog with which a run of the script ends, or its exception.
\<close>

definition session :: "storage \<Rightarrow> app" where
  "session st = start (Some st) True idle_button []"

definition loaded :: "error + app \<Rightarrow> error + entry list" where
  "loaded r = (case r of Inl err \<Rightarrow> Inl err | Inr s \<Rightarrow> Inr (sounds s))"

section \<open>Auxiliary definitions for the proofs\<close>

text \<open>
  The 6-bit digits and the padding that \<open>base64_encode\<close> writes, apart; the JSON value of
  an entry; two entries for the examples.
\<close>

fun base64_digits :: "blob \<Rightarrow> nat list" where
  "base64_digits [] = []"
| "base64_digits [a] = (let n = unat a * 16 in [n div 64, n mod 64])"
| "base64_digits [a, b] =
     (let n = (unat a * 256 + unat b) * 4 in [n div 4096, n div 64 mod 64, n mod 64])"
| "base64_digits (a # b # c # rest) =
     (let n = (unat a * 256 + unat b) * 256 + unat c
      in [n div 262144, n div 4096 mod 64, n div 64 mod 64, n mod 64] @ base64_digits rest)"

fun base64_padding :: "blob \<Rightarrow> js_string" where
  "base64_padding [] = []"
| "base64_padding [a] = [pad_char, pad_char]"
| "base64_padding [a, b] = [pad_char]"
| "base64_padding (a # b # c # rest) = base64_padding rest"

definition entry_json :: "entry \<Rightarrow> json" where
  "entry_json e = JObject [(str ''name'', JString (name e)), (str ''data'', JString (data e))]"

definition clap :: entry where
  "clap = \<lparr>name = str ''clap'', data = str ''UklGRg==''\<rparr>"

definition snap :: entry where
  "snap = \<lparr>name = [], data = str ''AQID''\<rparr>"

text \<open>An entry whose \<open>data\<close> is not base64 text.\<close>

definition hiss :: entry where
  "hiss = \<lparr>name = str ''hiss'', data = str ''!''\<rparr>"

declare parse_value.simps [simp del]
declare parse_after.simps [simp del]

section \<open>Properties of \<^verbatim>\<open>base64toBlob\<close>\<close>

lemmas base64_eval =
  atob_def forgiving_base64_decode_def str_def ascii_whitespace_def remove_padding_def
  pad_char_def base64_value_def base64_char_def

text \<open>
  The inner loop writes the character codes of positions \<open>offset..<send\<close> at the indices
  from \<open>i\<close> on, and reads no position outside the string.
\<close>

lemma fill_bytes_result:
  "send \<le> length cs \<Longrightarrow> offset \<le> send \<Longrightarrow> i + (send - offset) \<le> length bytes \<Longrightarrow>
   fill_bytes cs send offset i bytes =
     Inr (take i bytes @ map (\<lambda>k. Some (unat (cs ! k))) [offset..<send]
          @ drop (i + (send - offset)) bytes)"
proof (induction cs send offset i bytes rule: fill_bytes.induct)
  case (1 cs send offset i bytes)
  show ?case
  proof (cases "offset < send")
    case False
    with "1.prems" show ?thesis by (subst fill_bytes.simps) simp
  next
    case True
    then have rd: "charCodeAt0 cs offset = Inr (unat (cs ! offset))"
      using "1.prems" by (simp add: charCodeAt0_def)
    have i_lt: "i < length bytes" using True "1.prems" by simp
    have ih: "fill_bytes cs send (offset + 1) (i + 1) (array_set bytes i (unat (cs ! offset))) =
      Inr (take (i + 1) (array_set bytes i (unat (cs ! offset)))
           @ map (\<lambda>k. Some (unat (cs ! k))) [offset + 1..<send]
           @ drop (i + 1 + (send - (offset + 1))) (array_set bytes i (unat (cs ! offset))))"
      using True "1.prems" i_lt
      by (intro "1.IH"[OF True rd]) (simp_all add: array_set_def)
    have t: "take (i + 1) (array_set bytes i (unat (cs ! offset))) = take i bytes @ [Some (unat (cs ! offset))]"
      using i_lt by (simp add: array_set_def take_Suc_conv_app_nth)
    have d: "drop (i + 1 + (send - (offset + 1))) (array_set bytes i (unat (cs ! offset)))
        = drop (i + (send - offset)) bytes"
    proof -
      have e: "i + 1 + (send - (offset + 1)) = i + (send - offset)" using True by arith
      have "i < i + (send - offset)" using True by arith
      then show ?thesis unfolding e array_set_def using i_lt by (simp only: if_True drop_update_cancel)
    qed
    have u: "[offset..<send] = offset # [offset + 1..<send]"
      using True by (simp add: upt_conv_Cons)
    have step: "fill_bytes cs send offset i bytes =
       fill_bytes cs send (offset + 1) (i + 1) (array_set bytes i (unat (cs ! offset)))"
      using True rd by (subst fill_bytes.simps) simp
    show ?thesis
      unfolding step ih t d u by simp
  qed
qed

lemma fill_bytes_slice:
  "sbegin \<le> send \<Longrightarrow> send \<le> length cs \<Longrightarrow>
   fill_bytes cs send sbegin 0 (new_Array (send - sbegin)) =
     Inr (map (\<lambda>k. Some (unat (cs ! k))) [sbegin..<send])"
  using fill_bytes_result[of send cs sbegin 0 "new_Array (send - sbegin)"]
  by (simp add: new_Array_def)

lemma Uint8Array_slice:
  "send \<le> length cs \<Longrightarrow>
   Uint8Array (map (\<lambda>k. Some (unat (cs ! k))) [sbegin..<send]) =
     map (\<lambda>c. of_nat (unat c)) (take (send - sbegin) (drop sbegin cs))"
  by (auto simp: Uint8Array_def list_eq_iff_nth_eq)

lemma concat_chunks:
  "concat (map (\<lambda>j. take m (drop (j * m) xs)) [0..<n]) = take (n * m) xs"
proof (induction n)
  case 0
  show ?case by simp
next
  case (Suc n)
  have "Suc n * m = n * m + m" by simp
  then have "take (Suc n * m) xs = take (n * m) xs @ take m (drop (n * m) xs)"
    by (simp only: take_add)
  with Suc show ?case by simp
qed

text \<open>
  The outer loop fills the slices from \<open>sliceIndex\<close> on, each with the bytes of its 1024
  characters (fewer in the last slice); no \<open>RangeError\<close> and no \<open>TypeError\<close> occurs.
\<close>

lemma slice_loop_result:
  "slicesCount * sliceSize < length cs + sliceSize \<Longrightarrow> sliceIndex \<le> slicesCount \<Longrightarrow>
   length byteArrays = slicesCount \<Longrightarrow>
   slice_loop cs slicesCount sliceIndex byteArrays =
     Inr (take sliceIndex byteArrays
          @ map (\<lambda>j. Some (map (\<lambda>c. of_nat (unat c)) (take sliceSize (drop (j * sliceSize) cs))))
              [sliceIndex..<slicesCount])"
proof (induction cs slicesCount sliceIndex byteArrays rule: slice_loop.induct)
  case (1 cs slicesCount sliceIndex byteArrays)
  show ?case
  proof (cases "sliceIndex < slicesCount")
    case False
    with "1.prems" show ?thesis by (subst slice_loop.simps) simp
  next
    case True
    define sbegin where "sbegin = sliceIndex * sliceSize"
    define send where "send = min (sbegin + sliceSize) (length cs)"
    have "Suc sliceIndex * sliceSize \<le> slicesCount * sliceSize"
      using True by (intro mult_le_mono1) simp
    then have b_lt: "sbegin < length cs"
      using "1.prems"(1) by (simp add: sbegin_def)
    then have le: "sbegin \<le> send" and send_le: "send \<le> length cs"
      by (simp_all add: send_def)
    have nlt: "\<not> send < sbegin" using le by simp
    define bytes where "bytes = map (\<lambda>k. Some (unat (cs ! k))) [sbegin..<send]"
    have fb: "fill_bytes cs send sbegin 0 (new_Array (send - sbegin)) = Inr bytes"
      unfolding bytes_def by (rule fill_bytes_slice[OF le send_le])
    have chunk: "Uint8Array bytes = map (\<lambda>c. of_nat (unat c)) (take sliceSize (drop sbegin cs))"
    proof -
      have "take (send - sbegin) (drop sbegin cs) = take sliceSize (drop sbegin cs)"
        by (simp add: send_def min_def)
      then show ?thesis
        unfolding bytes_def using Uint8Array_slice[OF send_le, of sbegin] by simp
    qed
    have idx: "sliceIndex < length byteArrays" using True "1.prems" by simp
    have ih: "slice_loop cs slicesCount (sliceIndex + 1) (array_set byteArrays sliceIndex (Uint8Array bytes)) =
       Inr (take (sliceIndex + 1) (array_set byteArrays sliceIndex (Uint8Array bytes))
          @ map (\<lambda>j. Some (map (\<lambda>c. of_nat (unat c)) (take sliceSize (drop (j * sliceSize) cs))))
              [sliceIndex + 1..<slicesCount])"
      using True "1.prems" idx
      by (intro "1.IH"[OF True sbegin_def send_def nlt fb]) (simp_all add: array_set_def)
    have t: "take (sliceIndex + 1) (array_set byteArrays sliceIndex (Uint8Array bytes))
        = take sliceIndex byteArrays @ [Some (Uint8Array bytes)]"
      using idx by (simp add: array_set_def take_Suc_conv_app_nth)
    have u: "[sliceIndex..<slicesCount] = sliceIndex # [sliceIndex + 1..<slicesCount]"
      using True by (simp add: upt_conv_Cons)
    have step: "slice_loop cs slicesCount sliceIndex byteArrays =
      slice_loop cs slicesCount (sliceIndex + 1) (array_set byteArrays sliceIndex (Uint8Array bytes))"
      using True nlt fb by (subst slice_loop.simps) (simp add: sbegin_def send_def Let_def)
    show ?thesis
      unfolding step ih t u using chunk by (simp add: sbegin_def)
  qed
qed

lemma blob_of_byteCharacters_map:
  "blob_of_byteCharacters cs = Inr (map (\<lambda>c. of_nat (unat c)) cs)"
proof -
  define n where "n = (length cs + (sliceSize - 1)) div sliceSize"
  have pos: "0 < sliceSize" by (simp add: sliceSize_def)
  have up: "n * sliceSize < length cs + sliceSize"
    unfolding n_def sliceSize_def by simp
  have lo: "length cs \<le> n * sliceSize"
    unfolding n_def sliceSize_def by simp
  have "slice_loop cs n 0 (new_Array n) =
     Inr (map (\<lambda>j. Some (map (\<lambda>c. of_nat (unat c)) (take sliceSize (drop (j * sliceSize) cs)))) [0..<n])"
    using slice_loop_result[OF up, of 0 "new_Array n"] by (simp add: new_Array_def)
  moreover have "Blob (map (\<lambda>j. Some (map (\<lambda>c. of_nat (unat c)) (take sliceSize (drop (j * sliceSize) cs)))) [0..<n])
     = map (\<lambda>c. of_nat (unat c)) (concat (map (\<lambda>j. take sliceSize (drop (j * sliceSize) cs)) [0..<n]))"
    by (simp add: Blob_def blob_part_def map_concat comp_def)
  ultimately show ?thesis
    unfolding blob_of_byteCharacters_def Let_def n_def[symmetric]
    using lo by (simp add: concat_chunks)
qed

text \<open>
  Claim C10. For every base64 input that \<^verbatim>\<open>atob\<close> accepts, the sliced decoding of
  \<open>base64toBlob\<close> (slices of 1024 characters) returns the same bytes as the unsliced
  decoding, one byte per character of the \<^verbatim>\<open>atob\<close> output and in its order: no slice
  boundary drops, repeats or reorders a byte, and the blob is as long as the \<^verbatim>\<open>atob\<close>
  output.
\<close>

theorem base64toBlob_slices_refine:
  assumes "atob base64Data = Inr byteCharacters"
  shows "base64toBlob base64Data = base64toBlob_unsliced base64Data
       \<and> (\<exists>b. base64toBlob base64Data = Inr b
              \<and> length b = length byteCharacters
              \<and> b = map (\<lambda>c. of_nat (unat c)) byteCharacters)"
  using assms
  by (simp add: base64toBlob_def base64toBlob_unsliced_def blob_of_byteCharacters_map)

theorem base64toBlob_slices_refine_witness:
  "atob (str ''UklGRg=='') = Inr [82, 73, 70, 70]
   \<and> base64toBlob (str ''UklGRg=='') = base64toBlob_unsliced (str ''UklGRg=='')
   \<and> base64toBlob (str ''UklGRg=='') = Inr [82, 73, 70, 70]"
proof -
  have a: "atob (str ''UklGRg=='') = Inr [82, 73, 70, 70]"
    by (simp add: base64_eval)
  show ?thesis
    using a base64toBlob_slices_refine [OF a] by auto
qed

text \<open>
  The loops add no failure of their own: \<open>base64toBlob\<close> throws exactly when \<^verbatim>\<open>atob\<close>
  throws, and then the same exception.
\<close>

theorem base64toBlob_fails_with_atob:
  "(base64toBlob base64Data = Inl e) = (atob base64Data = Inl e)"
  by (simp add: base64toBlob_def blob_of_byteCharacters_map split: sum.splits)

section \<open>Encoding, then decoding\<close>

text \<open>The text of \<open>base64_encode\<close> is its digits in the alphabet, then its padding.\<close>

lemma base64_encode_digits:
  "base64_encode b = map base64_char (base64_digits b) @ base64_padding b"
  by (induction b rule: base64_encode.induct) (simp_all add: Let_def)

lemma byte_less: "unat (a :: byte) < 256"
  using unsigned_less[of a, where 'a=nat] by simp

lemma base64_digits_less: "d \<in> set (base64_digits b) \<Longrightarrow> d < 64"
proof (induction b rule: base64_digits.induct)
  case 1
  then show ?case by simp
next
  case (2 a)
  have "unat a * 16 div 64 < 64" using byte_less[of a] by simp
  with 2 show ?case by (auto simp: Let_def)
next
  case (3 a b)
  have "(unat a * 256 + unat b) * 4 div 4096 < 64"
    using byte_less[of a] byte_less[of b] by simp
  with 3 show ?case by (auto simp: Let_def)
next
  case (4 a b c rest)
  have "((unat a * 256 + unat b) * 256 + unat c) div 262144 < 64"
    using byte_less[of a] byte_less[of b] byte_less[of c] by simp
  with 4 show ?case by (auto simp: Let_def)
qed

lemma base64_shape:
  "(length (base64_digits b) + length (base64_padding b)) mod 4 = 0
   \<and> length (base64_digits b) mod 4 \<noteq> 1
   \<and> base64_padding b \<in> {[], [pad_char], [pad_char, pad_char]}"
  by (induction b rule: base64_digits.induct) (simp_all add: Let_def)

lemma base64_value_char: "n < 64 \<Longrightarrow> base64_value (base64_char n) = Some n"
  by (auto simp: base64_value_def base64_char_def Let_def unat_of_nat)

lemma base64_value_pad: "base64_value pad_char = None"
  by (simp add: base64_value_def pad_char_def)

lemma base64_char_not_pad: "n < 64 \<Longrightarrow> base64_char n \<noteq> pad_char"
  using base64_value_char[of n] base64_value_pad by auto

lemma base64_value_not_whitespace: "base64_value c \<noteq> None \<Longrightarrow> \<not> ascii_whitespace c"
  by (auto simp: base64_value_def ascii_whitespace_def)

lemma pad_not_whitespace: "\<not> ascii_whitespace pad_char"
  by (simp add: ascii_whitespace_def pad_char_def)

lemma base64_values_digits:
  "\<forall>d \<in> set ds. d < 64 \<Longrightarrow> base64_values (map base64_char ds) = Some ds"
  by (induction ds) (simp_all add: base64_value_char)

text \<open>The first two steps of the decoding leave the digits.\<close>

lemma filter_encode:
  "filter (\<lambda>c. \<not> ascii_whitespace c) (base64_encode b) = base64_encode b"
proof -
  have "\<forall>c \<in> set (base64_encode b). \<not> ascii_whitespace c"
  proof
    fix c assume "c \<in> set (base64_encode b)"
    then consider d where "d \<in> set (base64_digits b)" "c = base64_char d" | "c = pad_char"
      using base64_shape[of b] by (auto simp: base64_encode_digits)
    then show "\<not> ascii_whitespace c"
    proof cases
      case 1
      then show ?thesis
        using base64_value_char[OF base64_digits_less[OF 1(1)]]
        by (intro base64_value_not_whitespace) simp
    next
      case 2
      then show ?thesis by (simp add: pad_not_whitespace)
    qed
  qed
  then show ?thesis by (simp add: filter_id_conv)
qed

lemma remove_padding_encode:
  "remove_padding (base64_encode b) = map base64_char (base64_digits b)"
proof -
  let ?body = "map base64_char (base64_digits b)"
  have len: "length (?body @ base64_padding b) mod 4 = 0"
    using base64_shape[of b] by simp
  have lst: "?body \<noteq> [] \<Longrightarrow> last ?body \<noteq> pad_char"
  proof -
    assume ne: "?body \<noteq> []"
    then have "last (base64_digits b) \<in> set (base64_digits b)" by simp
    then have "last (base64_digits b) < 64" by (rule base64_digits_less)
    then show ?thesis using ne by (simp add: last_map base64_char_not_pad)
  qed
  consider "base64_padding b = []" | "base64_padding b = [pad_char]"
    | "base64_padding b = [pad_char, pad_char]"
    using base64_shape[of b] by auto
  then show ?thesis
  proof cases
    case 1
    show ?thesis
    proof (cases "?body = []")
      case True
      then show ?thesis by (simp add: base64_encode_digits 1 remove_padding_def)
    next
      case False
      have "butlast ?body \<noteq> [] \<Longrightarrow> True" by simp
      from False lst show ?thesis
        by (auto simp: base64_encode_digits 1 remove_padding_def)
    qed
  next
    case 2
    have ne: "?body \<noteq> []" using len by (auto simp: 2)
    with lst show ?thesis
      using len by (simp add: base64_encode_digits 2 remove_padding_def butlast_append)
  next
    case 3
    show ?thesis
      using len by (simp add: base64_encode_digits 3 remove_padding_def butlast_append)
  qed
qed

text \<open>Four 6-bit digits, three digits and two digits give back the bytes they were cut from.\<close>

lemma digits64:
  fixes n :: nat
  shows "((n div 262144 * 64 + n div 4096 mod 64) * 64 + n div 64 mod 64) * 64 + n mod 64 = n"
proof -
  have a: "n div 262144 = n div 4096 div 64" by (simp add: div_mult2_eq)
  have b: "n div 4096 = n div 64 div 64" by (simp add: div_mult2_eq)
  have "n div 262144 * 64 + n div 4096 mod 64 = n div 4096" unfolding a by simp
  moreover have "n div 4096 * 64 + n div 64 mod 64 = n div 64" unfolding b by simp
  ultimately show ?thesis by simp
qed

lemma digits64_3:
  fixes n :: nat
  shows "(n div 4096 * 64 + n div 64 mod 64) * 64 + n mod 64 = n"
proof -
  have b: "n div 4096 = n div 64 div 64" by (simp add: div_mult2_eq)
  have "n div 4096 * 64 + n div 64 mod 64 = n div 64" unfolding b by simp
  then show ?thesis by simp
qed

lemma digits64_2:
  fixes n :: nat
  shows "n div 64 * 64 + n mod 64 = n"
  by simp

lemma split256:
  fixes h l :: nat
  assumes "l < 256"
  shows "(h * 256 + l) div 256 = h" and "(h * 256 + l) mod 256 = l"
  using assms by simp_all

lemma decode_bits_group:
  "decode_bits (d1 # d2 # d3 # d4 # ds) 0 0 =
     (let n = ((d1 * 64 + d2) * 64 + d3) * 64 + d4
      in [of_nat (n div 65536), of_nat (n div 256 mod 256), of_nat (n mod 256)]
         @ decode_bits ds 0 0)"
  by (simp add: Let_def)

lemma decode_bits_two: "decode_bits [d1, d2] 0 0 = [of_nat ((d1 * 64 + d2) div 16)]"
  by simp

lemma decode_bits_three:
  "decode_bits [d1, d2, d3] 0 0 =
     [of_nat (((d1 * 64 + d2) * 64 + d3) div 4 div 256),
      of_nat (((d1 * 64 + d2) * 64 + d3) div 4 mod 256)]"
  by (simp add: Let_def)

lemma decode_bits_digits: "decode_bits (base64_digits b) 0 0 = b"
proof (induction b rule: base64_digits.induct)
  case 1
  show ?case by simp
next
  case (2 a)
  define n where "n = unat a * 16"
  have n16: "n div 16 = unat a" by (simp add: n_def)
  have "decode_bits (base64_digits [a]) 0 0 = [of_nat (n div 16)]"
    unfolding base64_digits.simps Let_def n_def[symmetric] decode_bits_two digits64_2 ..
  then show ?case unfolding n16 by simp
next
  case (3 a b)
  define n where "n = (unat a * 256 + unat b) * 4"
  have n4: "n div 4 = unat a * 256 + unat b" by (simp add: n_def)
  have hi: "n div 4 div 256 = unat a" and lo: "n div 4 mod 256 = unat b"
    unfolding n4 by (rule split256[OF byte_less])+
  have "decode_bits (base64_digits [a, b]) 0 0 =
      [of_nat (n div 4 div 256), of_nat (n div 4 mod 256)]"
    unfolding base64_digits.simps Let_def n_def[symmetric] decode_bits_three digits64_3 ..
  then show ?case unfolding hi lo by simp
next
  case (4 a b c rest)
  define n where "n = (unat a * 256 + unat b) * 256 + unat c"
  have n256: "n div 256 = unat a * 256 + unat b"
    unfolding n_def by (rule split256(1)[OF byte_less])
  have b3: "n mod 256 = unat c"
    unfolding n_def by (rule split256(2)[OF byte_less])
  have b2: "n div 256 mod 256 = unat b"
    unfolding n256 by (rule split256(2)[OF byte_less])
  have "n div 65536 = n div 256 div 256" by (simp add: div_mult2_eq)
  also have "\<dots> = unat a" unfolding n256 by (rule split256(1)[OF byte_less])
  finally have b1: "n div 65536 = unat a" .
  have eq: "decode_bits (base64_digits (a # b # c # rest)) 0 0 =
      [of_nat (unat a), of_nat (unat b), of_nat (unat c)] @ rest"
    unfolding base64_digits.simps Let_def n_def[symmetric] append_Cons append_Nil
      decode_bits_group digits64 b1 b2 b3 by (simp only: "4.IH")
  show ?case unfolding eq by simp
qed

lemma forgiving_base64_decode_encode: "forgiving_base64_decode (base64_encode b) = Some b"
proof -
  have "\<forall>d \<in> set (base64_digits b). d < 64" using base64_digits_less by blast
  then have v: "base64_values (map base64_char (base64_digits b)) = Some (base64_digits b)"
    by (rule base64_values_digits)
  show ?thesis
    using base64_shape[of b]
    by (simp add: forgiving_base64_decode_def filter_encode remove_padding_encode v
        decode_bits_digits)
qed

lemma atob_encode: "atob (base64_encode b) = Inr (map ucast b)"
  by (simp add: atob_def forgiving_base64_decode_encode)

lemma byte_of_code_unit: "(of_nat (unat (ucast (x :: byte) :: code_unit)) :: byte) = x"
proof -
  have "unat x < 2 ^ 16" using byte_less[of x] by simp
  then have "take_bit 16 (unat x) = unat x" by (rule take_bit_nat_eq_self)
  then show ?thesis by (simp add: unsigned_ucast_eq)
qed

lemma base64toBlob_encode: "base64toBlob (base64_encode b) = Inr b"
proof -
  have "map (\<lambda>c. (of_nat (unat (c :: code_unit)) :: byte)) (map ucast b) = b"
    by (induction b) (simp_all add: byte_of_code_unit del: of_nat_unat)
  then show ?thesis
    by (simp add: base64toBlob_def atob_encode blob_of_byteCharacters_map del: of_nat_unat)
qed

text \<open>
  The first \<^verbatim>\<open>base64,\<close> of the data URL is the one that ends its header: lines 100-101
  leave the base64 text.
\<close>

lemma indexOf_data_url:
  "indexOf (str ''data:application/octet-stream;base64,'' @ rest) (str ''base64,'') = 30"
  by (simp add: indexOf_def str_def)

lemma strip_data_url_readAsDataURL: "strip_data_url (readAsDataURL b) = base64_encode b"
proof -
  have len: "length (str ''base64,'') = 7" by (simp add: str_def)
  have "string_slice (str ''data:application/octet-stream;base64,'' @ base64_encode b) 37
      = base64_encode b"
    by (simp add: string_slice_def str_def Let_def)
  then show ?thesis
    by (simp add: strip_data_url_def readAsDataURL_def Let_def indexOf_data_url len)
qed

text \<open>
  Claim C1. For every byte sequence \<open>b\<close> (the empty one and those with any byte values
  included), decoding the encoding of \<open>b\<close> gives \<open>b\<close>: the encoding is the data URL of
  \<^verbatim>\<open>readAsDataURL\<close> without its prefix up to \<^verbatim>\<open>base64,\<close> (lines 93-101), which is the base64
  text of \<open>b\<close>, and the decoding is \<open>base64toBlob\<close>.
\<close>

theorem decode_encode:
  "base64toBlob (strip_data_url (readAsDataURL b)) = Inr b
   \<and> strip_data_url (readAsDataURL b) = base64_encode b"
  by (simp add: strip_data_url_readAsDataURL base64toBlob_encode)

text \<open>
  The media type of the header does not matter: lines 100-101 leave the base64 text
  behind every header that has no comma before its \<^verbatim>\<open>base64,\<close> (a data URL without a media
  type, \<^verbatim>\<open>data:;base64,\<close>, is one). A browser that answers \<^verbatim>\<open>data:\<close> alone for an empty
  blob gives the empty text, which is decoded to the empty blob.
\<close>

lemma index_from_first:
  "\<forall>i < length h. take (length pat) (drop i (h @ pat @ t)) \<noteq> pat \<Longrightarrow>
   index_from pat (h @ pat @ t) k = k + int (length h)"
proof (induction h arbitrary: k)
  case Nil
  show ?case
  proof (cases "pat @ t")
    case Nil
    then show ?thesis by simp
  next
    case (Cons a l)
    have "take (length pat) (pat @ t) = pat" by simp
    then have "take (length pat) (a # l) = pat" unfolding Cons .
    then show ?thesis using Cons by simp
  qed
next
  case (Cons x h)
  have "take (length pat) (drop 0 ((x # h) @ pat @ t)) \<noteq> pat"
    using Cons.prems by blast
  then have step: "index_from pat ((x # h) @ pat @ t) k = index_from pat (h @ pat @ t) (k + 1)"
    by simp
  have "\<forall>i < length h. take (length pat) (drop i (h @ pat @ t)) \<noteq> pat"
  proof (intro allI impI)
    fix i assume "i < length h"
    then have "Suc i < length (x # h)" by simp
    with Cons.prems have "take (length pat) (drop (Suc i) ((x # h) @ pat @ t)) \<noteq> pat"
      by blast
    then show "take (length pat) (drop i (h @ pat @ t)) \<noteq> pat" by simp
  qed
  from Cons.IH[OF this, of "k + 1"] show ?case unfolding step by simp
qed

lemma strip_data_url_header:
  assumes "44 \<notin> set h"
  shows "strip_data_url (h @ str ''base64,'' @ t) = t"
proof -
  let ?pat = "str ''base64,''"
  have len: "length ?pat = 7" by (simp add: str_def)
  have no: "\<forall>i < length h. take (length ?pat) (drop i (h @ ?pat @ t)) \<noteq> ?pat"
  proof (intro allI impI notI)
    fix i assume i: "i < length h" and eq: "take (length ?pat) (drop i (h @ ?pat @ t)) = ?pat"
    define w where "w = h @ ?pat @ t"
    have "i \<le> length w" using i by (simp add: w_def)
    then have "drop i w ! 6 = w ! (i + 6)" by (rule nth_drop)
    moreover have "take 7 (drop i w) ! 6 = drop i w ! 6" by simp
    moreover have "?pat ! 6 = 44" by (simp add: str_def)
    ultimately have c: "(h @ ?pat @ t) ! (i + 6) = 44"
      using eq unfolding len w_def by simp
    show False
    proof (cases "i + 6 < length h")
      case True
      then have "h ! (i + 6) \<in> set h" by simp
      with c True assms show False by (simp add: nth_append)
    next
      case False
      then have "i + 6 - length h < 6" using i by simp
      then have "i + 6 - length h \<in> {0, 1, 2, 3, 4, 5}" by auto
      with c False show False
        by (auto simp: nth_append str_def)
    qed
  qed
  have "indexOf (h @ ?pat @ t) ?pat = int (length h)"
    unfolding indexOf_def using index_from_first[OF no, of 0] by simp
  then show ?thesis
    by (simp add: strip_data_url_def Let_def len string_slice_def)
qed

lemma strip_data_url_empty_result: "strip_data_url (str ''data:'') = []"
  by (simp add: strip_data_url_def Let_def indexOf_def str_def string_slice_def)

lemma decode_encode_any_header:
  assumes "44 \<notin> set h"
  shows "base64toBlob (strip_data_url (h @ str ''base64,'' @ base64_encode b)) = Inr b"
  by (simp add: strip_data_url_header[OF assms] base64toBlob_encode)

lemma decode_encode_empty_result: "base64toBlob (strip_data_url (str ''data:'')) = Inr []"
  using base64toBlob_encode[of "[]"] by (simp add: strip_data_url_empty_result)

section \<open>Writing the catalog, then parsing it\<close>

lemma hex_value_hex_digit: "n < 16 \<Longrightarrow> hex_value (hex_digit n) = Some n"
  by (auto simp: hex_value_def hex_digit_def Let_def unat_of_nat)

lemma hex_positions:
  fixes n :: nat
  shows "((n div 4096 * 16 + n div 256 mod 16) * 16 + n div 16 mod 16) * 16 + n mod 16 = n"
proof -
  have a: "n div 4096 = n div 256 div 16" by (simp add: div_mult2_eq)
  have b: "n div 256 = n div 16 div 16" by (simp add: div_mult2_eq)
  have "n div 4096 * 16 + n div 256 mod 16 = n div 256" unfolding a by simp
  moreover have "n div 256 * 16 + n div 16 mod 16 = n div 16" unfolding b by simp
  ultimately show ?thesis by simp
qed

text \<open>The scanner reads every escape and every code unit that \<open>quote_units\<close> writes.\<close>

lemma scan_string_unicode_escape:
  "scan_string (unicode_escape c @ rest) =
     (case scan_string rest of None \<Rightarrow> None | Some (v, r) \<Rightarrow> Some (c # v, r))"
proof -
  have lt: "unat c div 4096 < 16"
    using unsigned_less[of c, where 'a=nat] by (simp add: less_mult_imp_div_less)
  have hexes: "(of_nat (((unat c div 4096 * 16 + unat c div 256 mod 16) * 16
      + unat c div 16 mod 16) * 16 + unat c mod 16) :: code_unit) = c"
    by (simp only: hex_positions) simp
  show ?thesis
    using lt hexes
    by (cases "scan_string rest")
      (auto simp: unicode_escape_def Let_def hex_value_hex_digit
         simp del: of_nat_add of_nat_mult)
qed

lemma scan_string_quote_unit:
  "scan_string (quote_unit c @ rest) =
     (case scan_string rest of None \<Rightarrow> None | Some (v, r) \<Rightarrow> Some (c # v, r))"
proof (cases "c = 8 \<or> c = 9 \<or> c = 10 \<or> c = 12 \<or> c = 13 \<or> c = 34 \<or> c = 92")
  case True
  then show ?thesis
    by (cases "scan_string rest") (auto simp: quote_unit_def unescape_def)
next
  case False
  show ?thesis
  proof (cases "unat c < 32")
    case True
    with False show ?thesis
      by (simp add: quote_unit_def scan_string_unicode_escape)
  next
    case ge: False
    with False show ?thesis
      by (cases "scan_string rest") (auto simp: quote_unit_def)
  qed
qed

lemma scan_string_surrogate:
  "high_surrogate c \<or> low_surrogate c \<Longrightarrow>
   scan_string (c # rest) =
     (case scan_string rest of None \<Rightarrow> None | Some (v, r) \<Rightarrow> Some (c # v, r))"
  by (cases "scan_string rest") (auto simp: high_surrogate_def low_surrogate_def)

lemma scan_string_quote_units:
  "scan_string (quote_units s @ 34 # rest) = Some (s, rest)"
proof (induction s rule: quote_units.induct)
  case 1
  show ?case by simp
next
  case (2 c)
  have "scan_string (34 # rest) = Some ([], rest)" by simp
  then show ?case
    by (simp add: scan_string_unicode_escape scan_string_quote_unit del: scan_string.simps)
next
  case (3 c d cs)
  show ?case
  proof (cases "high_surrogate c \<and> low_surrogate d")
    case True
    have ih: "scan_string (quote_units cs @ 34 # rest) = Some (cs, rest)"
      by (rule "3.IH"(1)[OF True])
    have c: "high_surrogate c \<or> low_surrogate c" and d: "high_surrogate d \<or> low_surrogate d"
      using True by simp_all
    have "scan_string (c # d # quote_units cs @ 34 # rest) = Some (c # d # cs, rest)"
      by (simp only: scan_string_surrogate[OF c] scan_string_surrogate[OF d] ih) simp
    with True show ?thesis by (simp del: scan_string.simps)
  next
    case False
    show ?thesis
    proof (cases "high_surrogate c \<or> low_surrogate c")
      case True
      have ih: "scan_string (quote_units (d # cs) @ 34 # rest) = Some (d # cs, rest)"
        by (rule "3.IH"(2)[OF False True])
      have step: "quote_units (c # d # cs) = unicode_escape c @ quote_units (d # cs)"
        using False True by auto
      show ?thesis
        unfolding step by (simp add: scan_string_unicode_escape ih del: scan_string.simps)
    next
      case nsur: False
      have ih: "scan_string (quote_units (d # cs) @ 34 # rest) = Some (d # cs, rest)"
        by (rule "3.IH"(3)[OF False nsur])
      have step: "quote_units (c # d # cs) = quote_unit c @ quote_units (d # cs)"
        using False nsur by auto
      show ?thesis
        unfolding step by (simp add: scan_string_quote_unit ih del: scan_string.simps)
    qed
  qed
qed

lemma parse_value_string:
  "parse_value st (QuoteJSONString s @ rest) = parse_after (JString s) st rest"
  by (subst parse_value.simps)
    (simp add: QuoteJSONString_def skip_ws_def json_whitespace_def scan_string_quote_units)

lemma scan_key_name:
  \<open>scan_key (str ''"name":'' @ rest) = Some (str ''name'', rest)\<close>
  by (simp add: scan_key_def str_def skip_ws_def json_whitespace_def)

lemma scan_key_data:
  \<open>scan_key (str ''"data":'' @ rest) = Some (str ''data'', rest)\<close>
  by (simp add: scan_key_def str_def skip_ws_def json_whitespace_def)

lemma skip_ws_name:
  \<open>skip_ws (str ''"name":'' @ rest) = 34 # str ''name":'' @ rest\<close>
  by (simp add: str_def skip_ws_def json_whitespace_def)

lemma skip_ws_punct:
  "skip_ws (123 # rest) = 123 # rest" "skip_ws (125 # rest) = 125 # rest"
  "skip_ws (44 # rest) = 44 # rest" "skip_ws (91 # rest) = 91 # rest"
  "skip_ws (93 # rest) = 93 # rest"
  by (simp_all add: skip_ws_def json_whitespace_def)

lemma parse_value_entry:
  "parse_value st (stringify_entry e @ rest) = parse_after (entry_json e) st rest"
proof -
  let ?n = "JString (name e)" and ?d = "JString (data e)"
  let ?r2 = \<open>125 # rest\<close>
  let ?r1 = \<open>44 # str ''"data":'' @ QuoteJSONString (data e) @ ?r2\<close>
  have split: \<open>stringify_entry e @ rest =
      123 # str ''"name":'' @ QuoteJSONString (name e) @ ?r1\<close>
    by (simp add: stringify_entry_def str_def)
  have s1: \<open>parse_value st (123 # str ''"name":'' @ QuoteJSONString (name e) @ ?r1) =
      parse_value (InObject [] (str ''name'') # st) (QuoteJSONString (name e) @ ?r1)\<close>
    by (subst parse_value.simps) (simp add: skip_ws_punct skip_ws_name scan_key_name)
  have s2: \<open>parse_after ?n (InObject [] (str ''name'') # st) ?r1 =
      parse_value (InObject [(str ''name'', ?n)] (str ''data'') # st) (QuoteJSONString (data e) @ ?r2)\<close>
    by (subst parse_after.simps) (simp add: skip_ws_punct scan_key_data)
  have s3: \<open>parse_after ?d (InObject [(str ''name'', ?n)] (str ''data'') # st) ?r2 =
      parse_after (entry_json e) st rest\<close>
    by (subst parse_after.simps) (simp add: skip_ws_punct entry_json_def str_def)
  show ?thesis
    unfolding split s1 parse_value_string s2 s3 ..
qed

lemma parse_value_entries:
  "es \<noteq> [] \<Longrightarrow>
   parse_value (InArray acc # st) (join_comma (map stringify_entry es) @ 93 # rest) =
     parse_after (JArray (acc @ map entry_json es)) st rest"
proof (induction es arbitrary: acc)
  case Nil
  then show ?case by simp
next
  case (Cons e es)
  show ?case
  proof (cases es)
    case Nil
    have "parse_after (entry_json e) (InArray acc # st) (93 # rest) =
        parse_after (JArray (acc @ [entry_json e])) st rest"
      by (subst parse_after.simps) (simp add: skip_ws_punct)
    with Nil show ?thesis by (simp add: parse_value_entry)
  next
    case (Cons e' es')
    let ?tail = "join_comma (map stringify_entry es) @ 93 # rest"
    have j: "join_comma (map stringify_entry (e # es)) @ 93 # rest =
        stringify_entry e @ 44 # ?tail"
      using Cons by (simp add: str_def)
    have "parse_after (entry_json e) (InArray acc # st) (44 # ?tail) =
        parse_value (InArray (acc @ [entry_json e]) # st) ?tail"
      by (subst parse_after.simps) (simp add: skip_ws_punct)
    also have "\<dots> = parse_after (JArray ((acc @ [entry_json e]) @ map entry_json es)) st rest"
      using Cons by (intro Cons.IH) simp
    finally show ?thesis
      unfolding j parse_value_entry by simp
  qed
qed

text \<open>\<^verbatim>\<open>JSON.parse(JSON.stringify(sounds))\<close> is the array of the entries, whatever their strings.\<close>

lemma JSON_parse_stringify:
  "JSON_parse (JSON_stringify es) = Inr (JArray (map entry_json es))"
proof (cases es)
  case Nil
  have "parse_after (JArray []) [] [] = Inr (JArray [])"
    by (subst parse_after.simps) (simp add: skip_ws_def)
  then show ?thesis
    unfolding JSON_parse_def JSON_stringify_def Nil
    by (subst parse_value.simps) (simp add: str_def skip_ws_punct)
next
  case (Cons e es')
  obtain t where hd: "join_comma (map stringify_entry es) = 123 # t"
    unfolding Cons by (cases es') (simp_all add: stringify_entry_def str_def)
  have fin: "\<And>v. parse_after v [] [] = Inr v"
    by (subst parse_after.simps) (simp add: skip_ws_def)
  have "parse_value [] (91 # 123 # t @ [93]) = parse_value [InArray []] (123 # t @ [93])"
    by (subst parse_value.simps) (simp add: skip_ws_punct)
  then have "parse_value [] (91 # join_comma (map stringify_entry es) @ [93]) =
      parse_value [InArray []] (join_comma (map stringify_entry es) @ [93])"
    by (simp add: hd)
  also have "\<dots> = parse_after (JArray ([] @ map entry_json es)) [] []"
    using Cons by (intro parse_value_entries) simp
  finally show ?thesis
    by (simp add: JSON_parse_def JSON_stringify_def str_def fin)
qed

lemma catalog_of_entry_json: "catalog_of (map entry_json es) = Some es"
  by (induction es) (simp_all add: entry_json_def)

text \<open>The parser throws nothing but \<open>SyntaxError\<close>.\<close>

lemma parse_only_SyntaxError:
  "(parse_value st s = Inl e \<longrightarrow> e = SyntaxError)"
  "(parse_after v st s = Inl e \<longrightarrow> e = SyntaxError)"
proof (induction st s and v st s rule: parse_value_parse_after.induct)
  case (1 st s)
  show ?case
    apply (subst parse_value.simps)
    using 1
    by (auto split: list.splits option.splits if_splits)
next
  case (2 v s)
  show ?case by (subst parse_after.simps) simp
next
  case (3 v acc st s)
  show ?case
    apply (subst parse_after.simps)
    using 3
    by (auto split: list.splits option.splits if_splits)
next
  case (4 v acc k st s)
  show ?case
    apply (subst parse_after.simps)
    using 4
    by (auto split: list.splits option.splits if_splits)
qed

lemma JSON_parse_error: "JSON_parse t = Inl e \<Longrightarrow> e = SyntaxError"
  using parse_only_SyntaxError(1)[of "[]" t e] by (simp add: JSON_parse_def)

lemmas json_eval = JSON_parse_def str_def skip_ws_def json_whitespace_def scan_key_def
  is_digit_def scan_number_def scan_sign_def scan_int_def scan_frac_def scan_exp_def scan_digits_def
  hex_value_def unescape_def parse_value.simps parse_after.simps

lemmas stringify_eval = JSON_stringify_def stringify_entry_def QuoteJSONString_def quote_unit_def
  high_surrogate_def low_surrogate_def unicode_escape_def hex_digit_def str_def

lemma JSON_parse_null: "JSON_parse (str ''null'') = Inr JNull"
  by (simp add: json_eval)

lemma JSON_parse_brace: "JSON_parse (str ''{'') = Inl SyntaxError"
  by (simp add: json_eval)

lemma stringify_clap: \<open>JSON_stringify [clap] = str ''[{"name":"clap","data":"UklGRg=="}]''\<close>
  by (simp add: clap_def stringify_eval)

section \<open>The state in which the handlers start\<close>

lemma start_store_of:
  "start (Some (store_of v)) md btn board =
     \<lparr>localStorage = Some (store_of v), mediaDevices = md, recordBtn = btn, boardEl = board,
      hasLocalStorage = True, recording = False, mediaRecorder = None, sounds = []\<rparr>"
  by (auto simp: start_def checkForLocalStorage_def setItem_def removeItem_def store_of_def
      unlimited_def str_def fun_eq_iff)

lemma start_full_store:
  "start (Some full_store) md btn board =
     \<lparr>localStorage = Some full_store, mediaDevices = md, recordBtn = btn, boardEl = board,
      hasLocalStorage = False, recording = False, mediaRecorder = None, sounds = []\<rparr>"
  by (simp add: start_def checkForLocalStorage_def setItem_def full_store_def full_def)

lemma test_not_sounds: "str ''test'' \<noteq> str ''sounds''" "str ''sounds'' \<noteq> str ''test''"
  by (simp_all add: str_def)

lemma start_available:
  assumes "admits st ((items st)(str ''test'' \<mapsto> str ''test''))"
  shows "\<exists>st'. start (Some st) md btn board =
           \<lparr>localStorage = Some st', mediaDevices = md, recordBtn = btn, boardEl = board,
            hasLocalStorage = True, recording = False, mediaRecorder = None, sounds = []\<rparr>
         \<and> items st' (str ''sounds'') = items st (str ''sounds'')"
  using assms
  by (simp add: start_def checkForLocalStorage_def setItem_def removeItem_def test_not_sounds)

lemma start_unavailable:
  assumes "ls = None \<or> (\<exists>st. ls = Some st \<and> \<not> admits st ((items st)(str ''test'' \<mapsto> str ''test'')))"
  shows "start ls md btn board =
           \<lparr>localStorage = ls, mediaDevices = md, recordBtn = btn, boardEl = board,
            hasLocalStorage = False, recording = False, mediaRecorder = None, sounds = []\<rparr>"
  using assms
  by (auto simp: start_def checkForLocalStorage_def setItem_def)

lemma check_store_of: "fst (checkForLocalStorage (Some (store_of v)))"
  by (simp add: checkForLocalStorage_def setItem_def store_of_def unlimited_def Let_def)

section \<open>The record button\<close>

text \<open>
  Claim C7. Without \<^verbatim>\<open>navigator.mediaDevices\<close> a click on the record button changes
  nothing: the recording flag, the catalog, the store and the button are as before. (The
  handler has no other result than the state: it surfaces no error.)
\<close>

theorem click_without_mediaDevices:
  assumes "\<not> mediaDevices s"
  shows "recordBtn_onclick s = s
       \<and> recording (recordBtn_onclick s) = recording s
       \<and> sounds (recordBtn_onclick s) = sounds s
       \<and> localStorage (recordBtn_onclick s) = localStorage s
       \<and> recordBtn (recordBtn_onclick s) = recordBtn s"
  using assms by (simp add: recordBtn_onclick_def)

theorem click_without_mediaDevices_witness:
  "\<not> mediaDevices (start (Some (store_of None)) False idle_button [])
   \<and> recordBtn_onclick (start (Some (store_of None)) False idle_button [])
       = start (Some (store_of None)) False idle_button []"
proof -
  have h: "\<not> mediaDevices (start (Some (store_of None)) False idle_button [])"
    by (simp add: start_store_of)
  show ?thesis using h click_without_mediaDevices [OF h] by simp
qed

text \<open>
  Claim C8 says that a click in Recording always leads back to Idle and that the session is
  never stuck in Recording. On the page below, the first click sets the flag; the second
  click comes before the stream is granted (\<open>mediaRecorder\<close> is still \<^verbatim>\<open>undefined\<close>) and
  changes nothing, and so does every later click while no stream is granted.
\<close>

theorem click_in_Recording_stays_counterexample:
  "recording (recordBtn_onclick (start (Some (store_of None)) True idle_button []))
   \<and> recording (recordBtn_onclick (recordBtn_onclick (start (Some (store_of None)) True idle_button [])))
   \<and> recordBtn_onclick (recordBtn_onclick (recordBtn_onclick (start (Some (store_of None)) True idle_button [])))
       = recordBtn_onclick (start (Some (store_of None)) True idle_button [])"
  by (simp add: start_store_of recordBtn_onclick_def)

text \<open>
  Claim C8, amended. With \<^verbatim>\<open>navigator.mediaDevices\<close>, the recording flag has the two states
  Idle and Recording: a click in Idle leads to Recording; a click in Recording leads back
  to Idle when a media recorder has been created (line 37), and changes nothing while
  none has been; the grant of the stream does not change the flag.
\<close>

theorem recording_state_machine:
  assumes "mediaDevices s"
  shows "(\<not> recording s \<longrightarrow> recording (recordBtn_onclick s))
       \<and> (recording s \<and> mediaRecorder s \<noteq> None \<longrightarrow> \<not> recording (recordBtn_onclick s))
       \<and> (recording s \<and> mediaRecorder s = None \<longrightarrow> recordBtn_onclick s = s)
       \<and> recording (getUserMedia_then s) = recording s"
  using assms by (auto simp: recordBtn_onclick_def getUserMedia_then_def)

theorem recording_state_machine_witness:
  "mediaDevices (start (Some (store_of None)) True idle_button [])
   \<and> \<not> recording (start (Some (store_of None)) True idle_button [])
   \<and> recording (recordBtn_onclick (start (Some (store_of None)) True idle_button []))
   \<and> \<not> recording (recordBtn_onclick (getUserMedia_then
         (recordBtn_onclick (start (Some (store_of None)) True idle_button []))))"
proof -
  let ?s = "start (Some (store_of None)) True idle_button []"
  have h: "mediaDevices ?s" by (simp add: start_store_of)
  have h2: "mediaDevices (getUserMedia_then (recordBtn_onclick ?s))"
    by (simp add: start_store_of getUserMedia_then_def recordBtn_onclick_def)
  have r: "recording (getUserMedia_then (recordBtn_onclick ?s))"
     "mediaRecorder (getUserMedia_then (recordBtn_onclick ?s)) \<noteq> None"
     "\<not> recording ?s"
    by (simp_all add: start_store_of getUserMedia_then_def recordBtn_onclick_def)
  show ?thesis
    using h r recording_state_machine [OF h] recording_state_machine [OF h2] by simp
qed

section \<open>Appending an entry\<close>

lemma append_entry_sounds: "sounds (snd (append_entry e s)) = sounds s @ [e]"
  by (simp add: append_entry_def Let_def split: option.splits sum.splits)

lemma append_entry_store:
  assumes "hasLocalStorage s" and "localStorage s = Some st"
      and "append_entry e s = (None, s')"
  shows "\<exists>st'. localStorage s' = Some st'
           \<and> items st' (str ''sounds'') = Some (JSON_stringify (sounds s'))
           \<and> sounds s' = sounds s @ [e]
           \<and> (\<forall>k. k \<noteq> str ''sounds'' \<longrightarrow> items st' k = items st k)"
  using assms
  by (auto simp: append_entry_def Let_def setItem_def split: if_splits)

lemma append_clap:
  "append_entry clap (start (Some (store_of None)) md btn board) =
     (None, \<lparr>localStorage = Some (store_of (Some (JSON_stringify [clap]))), mediaDevices = md,
             recordBtn = btn, boardEl = board, hasLocalStorage = True, recording = False,
             mediaRecorder = None, sounds = [clap]\<rparr>)"
  unfolding start_store_of
  by (simp add: append_entry_def setItem_def store_of_def unlimited_def fun_eq_iff)

lemma append_snap:
  "append_entry snap
     \<lparr>localStorage = Some (store_of (Some (JSON_stringify [clap]))), mediaDevices = md,
      recordBtn = btn, boardEl = board, hasLocalStorage = True, recording = False,
      mediaRecorder = None, sounds = [clap]\<rparr> =
     (None, \<lparr>localStorage = Some (store_of (Some (JSON_stringify [clap, snap]))), mediaDevices = md,
             recordBtn = btn, boardEl = board, hasLocalStorage = True, recording = False,
             mediaRecorder = None, sounds = [clap, snap]\<rparr>)"
  by (simp add: append_entry_def setItem_def store_of_def unlimited_def fun_eq_iff)

text \<open>
  Claim C4. For every entry and every state (whether \<open>hasLocalStorage\<close> is set or not,
  whether the store is there or not, whatever its quota accepts), the append adds the
  entry at the end of the catalog in memory, also when \<^verbatim>\<open>setItem\<close> throws.
\<close>

theorem append_entry_in_memory:
  "sounds (snd (append_entry e s)) = sounds s @ [e]
   \<and> last (sounds (snd (append_entry e s))) = e"
  by (simp add: append_entry_def Let_def split: option.splits sum.splits)

text \<open>An append whose write throws: the entry is in the catalog in memory all the same.\<close>

lemma append_entry_full_store:
  "append_entry e (start (Some full_store) md btn board\<lparr>hasLocalStorage := True\<rparr>)
     = (Some QuotaExceededError, start (Some full_store) md btn board\<lparr>hasLocalStorage := True, sounds := [e]\<rparr>)"
  unfolding start_full_store
  by (simp add: append_entry_def setItem_def full_store_def full_def)

text \<open>
  Claim C6. After an append that wrote to the store (\<open>hasLocalStorage\<close> is set and
  \<^verbatim>\<open>setItem\<close> did not throw), the key \<open>sounds\<close> holds the serialization of the whole
  updated catalog, and every other key of the store holds what it held before.
\<close>

theorem append_entry_rewrites_store:
  assumes "hasLocalStorage s" and "localStorage s = Some st"
      and "append_entry e s = (None, s')"
  shows "\<exists>st'. localStorage s' = Some st'
           \<and> items st' (str ''sounds'') = Some (JSON_stringify (sounds s'))
           \<and> sounds s' = sounds s @ [e]
           \<and> (\<forall>k. k \<noteq> str ''sounds'' \<longrightarrow> items st' k = items st k)"
  using append_entry_store [OF assms] .

theorem append_entry_rewrites_store_witness:
  \<open>\<exists>st'. localStorage (snd (append_entry clap (start (Some (store_of None)) True idle_button [])))
          = Some st'
     \<and> items st' (str ''sounds'') = Some (str ''[{"name":"clap","data":"UklGRg=="}]'')
     \<and> items st' (str ''test'') = None\<close>
proof -
  let ?s = "start (Some (store_of None)) True idle_button []"
  have h1: "hasLocalStorage ?s" and h2: "localStorage ?s = Some (store_of None)"
    by (simp_all add: start_store_of)
  have h3: "append_entry clap ?s = (None, snd (append_entry clap ?s))"
    by (simp add: append_clap)
  have t: "items (store_of None) (str ''test'') = None" by (simp add: store_of_def)
  from append_entry_rewrites_store [OF h1 h2 h3] obtain st' where
    "localStorage (snd (append_entry clap ?s)) = Some st'"
    "items st' (str ''sounds'') = Some (JSON_stringify (sounds (snd (append_entry clap ?s))))"
    "\<forall>k. k \<noteq> str ''sounds'' \<longrightarrow> items st' k = items (store_of None) k"
    by blast
  then show ?thesis
    using t by (simp add: append_clap stringify_clap test_not_sounds)
qed

text \<open>The entry that a recording appends.\<close>

lemma Blob_chunks: "Blob (map Some chunks) = concat chunks"
  by (simp add: Blob_def blob_part_def comp_def)

lemma save_recording_entry:
  "sounds (snd (save_recording chunks answer s)) =
     sounds s @ [\<lparr>name = prompt_name answer, data = base64_encode (concat chunks)\<rparr>]"
  by (simp add: save_recording_def mediaRecorder_onstop_def reader_onloadend_def Let_def
      append_entry_sounds strip_data_url_readAsDataURL Blob_chunks createSoundboardButton_def)

text \<open>
  Claim C9. The name of the entry that a recording appends is the answer to the prompt,
  and the empty string when the prompt was cancelled (the prompt returned \<^verbatim>\<open>null\<close>): the
  stored name is a string in every case, and the object that is written for a cancelled
  prompt has the name \<^verbatim>\<open>""\<close>, not \<^verbatim>\<open>null\<close>.
\<close>

theorem saved_name_is_string:
  \<open>name (last (sounds (snd (save_recording chunks answer s))))
     = (case answer of None \<Rightarrow> [] | Some t \<Rightarrow> t)
   \<and> name (last (sounds (snd (save_recording chunks None s)))) = []
   \<and> stringify_entry (last (sounds (snd (save_recording chunks None s))))
     = str ''{"name":"","data":'' @ QuoteJSONString (base64_encode (concat chunks)) @ str ''}''\<close>
  by (simp add: save_recording_entry prompt_name_def stringify_entry_def split: option.splits)
    (simp add: QuoteJSONString_def str_def)

section \<open>Loading the catalog\<close>

lemma checkForLocalStorage_cases:
  "checkForLocalStorage ls = (has, ls') \<Longrightarrow>
   (has \<longrightarrow> (\<exists>st st'. ls = Some st \<and> ls' = Some st'
        \<and> items st' (str ''sounds'') = items st (str ''sounds'')))"
  by (auto simp: checkForLocalStorage_def Let_def setItem_def removeItem_def test_not_sounds
      split: option.splits if_splits)

lemma load_buttons_valid:
  "\<forall>e \<in> set es. atob (data e) \<noteq> Inl InvalidCharacterError \<Longrightarrow>
   \<exists>s'. load_buttons es s = Inr s' \<and> sounds s' = sounds s"
proof (induction es arbitrary: s)
  case Nil
  show ?case by simp
next
  case (Cons e es)
  from Cons.prems obtain cs where a: "atob (data e) = Inr cs"
    by (cases "atob (data e)") (auto simp: atob_def split: option.splits)
  have b: "base64toBlob (data e) = Inr (map (\<lambda>c. of_nat (unat c)) cs)"
    by (simp add: base64toBlob_def a blob_of_byteCharacters_map)
  from Cons.prems have "\<forall>e \<in> set es. atob (data e) \<noteq> Inl InvalidCharacterError" by simp
  from Cons.IH[OF this, of "createSoundboardButton (name e) (map (\<lambda>c. of_nat (unat c)) cs) s"]
  show ?case by (simp add: b) (simp add: createSoundboardButton_def)
qed

lemma initUI_stored_catalog:
  assumes "hasLocalStorage s" and "localStorage s = Some st"
    and "items st (str ''sounds'') = Some (JSON_stringify es)"
    and "\<forall>e \<in> set es. atob (data e) \<noteq> Inl InvalidCharacterError"
  shows "\<exists>s'. initUI s = Inr s' \<and> sounds s' = es"
proof -
  from load_buttons_valid[OF assms(4), of "s\<lparr>sounds := es\<rparr>"]
  show ?thesis
    using assms(1-3)
    by (simp add: initUI_def getItem_def ToString_nullable_def JSON_parse_stringify
        catalog_of_entry_json)
qed

text \<open>
  Claim C5. When the storage cannot be read at all, when its availability test fails, or
  when it has no value under the key \<open>sounds\<close> (an empty store included), the script
  ends without an exception and with the empty catalog.
\<close>

theorem load_absent_gives_empty:
  assumes "ls = None
         \<or> (\<exists>st. ls = Some st \<and> \<not> admits st ((items st)(str ''test'' \<mapsto> str ''test'')))
         \<or> (\<exists>st. ls = Some st \<and> items st (str ''sounds'') = None)"
  shows "\<exists>s. script ls md btn board = Inr s \<and> sounds s = []"
proof (cases "ls = None \<or> (\<exists>st. ls = Some st \<and> \<not> admits st ((items st)(str ''test'' \<mapsto> str ''test'')))")
  case True
  show ?thesis
    unfolding script_def start_unavailable[OF True] by (simp add: initUI_def)
next
  case False
  with assms obtain st where st: "ls = Some st" "items st (str ''sounds'') = None"
    and ok: "admits st ((items st)(str ''test'' \<mapsto> str ''test''))"
    by auto
  from start_available[OF ok, of md btn board] obtain st' where
    s0: "start (Some st) md btn board =
           \<lparr>localStorage = Some st', mediaDevices = md, recordBtn = btn, boardEl = board,
            hasLocalStorage = True, recording = False, mediaRecorder = None, sounds = []\<rparr>"
    and it: "items st' (str ''sounds'') = items st (str ''sounds'')"
    by blast
  show ?thesis
    unfolding script_def st(1) s0
    by (simp add: initUI_def getItem_def it st(2) ToString_nullable_def JSON_parse_null)
qed

theorem load_absent_gives_empty_witness:
  "(\<exists>s. script None True idle_button [] = Inr s \<and> sounds s = [])
   \<and> (\<exists>s. script (Some full_store) True idle_button [] = Inr s \<and> sounds s = [])
   \<and> (\<exists>s. script (Some (store_of None)) True idle_button [] = Inr s \<and> sounds s = [])"
proof -
  have a: "\<not> admits full_store ((items full_store)(str ''test'' \<mapsto> str ''test''))"
    by (simp add: full_store_def full_def)
  have b: "items (store_of None) (str ''sounds'') = None"
    by (simp add: store_of_def)
  show ?thesis
    using load_absent_gives_empty [of None True idle_button "[]"]
      load_absent_gives_empty [of "Some full_store" True idle_button "[]"]
      load_absent_gives_empty [of "Some (store_of None)" True idle_button "[]"]
      a b
    by simp
qed

text \<open>
  Claim C2 says that a stored value that is not JSON gives the empty catalog and no error.
  On a store that holds the text \<^verbatim>\<open>{\<close> under the key, \<^verbatim>\<open>JSON.parse\<close> throws and the
  exception leaves \<open>initUI\<close>.
\<close>

theorem load_unparseable_counterexample:
  "script (Some (store_of (Some (str ''{'')))) True idle_button [] = Inl SyntaxError"
  unfolding script_def start_store_of
  by (simp add: initUI_def getItem_def store_of_def ToString_nullable_def JSON_parse_brace)

text \<open>
  Claim C2, amended. When the storage is available and the value under the key \<open>sounds\<close>
  is present but is not JSON, the \<open>SyntaxError\<close> of \<^verbatim>\<open>JSON.parse\<close> leaves \<open>initUI\<close>: no
  catalog is returned.
\<close>

theorem load_unparseable_throws:
  assumes "admits st ((items st)(str ''test'' \<mapsto> str ''test''))"
    and "items st (str ''sounds'') = Some v"
    and "JSON_parse v = Inl e"
  shows "script (Some st) md btn board = Inl SyntaxError"
proof -
  from start_available[OF assms(1), of md btn board] obtain st' where
    s0: "start (Some st) md btn board =
           \<lparr>localStorage = Some st', mediaDevices = md, recordBtn = btn, boardEl = board,
            hasLocalStorage = True, recording = False, mediaRecorder = None, sounds = []\<rparr>"
    and it: "items st' (str ''sounds'') = items st (str ''sounds'')"
    by blast
  have e: "e = SyntaxError" using assms(3) by (rule JSON_parse_error)
  show ?thesis
    unfolding script_def s0
    using assms(3) e
    by (simp add: initUI_def getItem_def it assms(2) ToString_nullable_def)
qed

theorem load_unparseable_throws_witness:
  "JSON_parse (str ''{'') = Inl SyntaxError
   \<and> script (Some (store_of (Some (str ''{'')))) True idle_button [] = Inl SyntaxError"
proof -
  have h1: "admits (store_of (Some (str ''{'')))
      ((items (store_of (Some (str ''{''))))(str ''test'' \<mapsto> str ''test''))"
    by (simp add: store_of_def unlimited_def)
  have h2: "items (store_of (Some (str ''{''))) (str ''sounds'') = Some (str ''{'')"
    by (simp add: store_of_def)
  show ?thesis
    using load_unparseable_throws [OF h1 h2 JSON_parse_brace] JSON_parse_brace by simp
qed

lemma atob_clap: "atob (data clap) = Inr [82, 73, 70, 70]"
  by (simp add: clap_def base64_eval)

lemma atob_snap: "atob (data snap) = Inr [1, 2, 3]"
  by (simp add: snap_def base64_eval)

lemma base64toBlob_clap: "base64toBlob (str ''UklGRg=='') = Inr [82, 73, 70, 70]"
  using atob_clap by (simp add: base64toBlob_def blob_of_byteCharacters_map clap_def)

text \<open>Sessions on a store with a quota, and on a store without one.\<close>

lemma length_stringify_clap: "length (JSON_stringify [clap]) = 35"
  by (simp add: clap_def stringify_eval)

lemma length_stringify_clap_snap: "length (JSON_stringify [clap, snap]) = 61"
  by (simp add: clap_def snap_def stringify_eval)

lemma start_capped_store:
  "start (Some (capped_store n v)) md btn board =
     \<lparr>localStorage = Some (capped_store n v), mediaDevices = md, recordBtn = btn,
      boardEl = board,
      hasLocalStorage = ((case v of None \<Rightarrow> 0 | Some t \<Rightarrow> length t) + 4 \<le> n),
      recording = False, mediaRecorder = None, sounds = []\<rparr>"
  by (auto simp: start_def checkForLocalStorage_def setItem_def removeItem_def capped_store_def
      usage_def test_not_sounds fun_eq_iff Let_def str_def split: option.splits)

lemma append_capped_store:
  "append_entry e
     \<lparr>localStorage = Some (capped_store n v), mediaDevices = md, recordBtn = btn,
      boardEl = board, hasLocalStorage = True, recording = False, mediaRecorder = None,
      sounds = es\<rparr> =
   (if length (JSON_stringify (es @ [e])) \<le> n then
      (None, \<lparr>localStorage = Some (capped_store n (Some (JSON_stringify (es @ [e])))),
              mediaDevices = md, recordBtn = btn, boardEl = board, hasLocalStorage = True,
              recording = False, mediaRecorder = None, sounds = es @ [e]\<rparr>)
    else
      (Some QuotaExceededError,
       \<lparr>localStorage = Some (capped_store n v), mediaDevices = md, recordBtn = btn,
        boardEl = board, hasLocalStorage = True, recording = False, mediaRecorder = None,
        sounds = es @ [e]\<rparr>))"
  by (auto simp: append_entry_def setItem_def capped_store_def usage_def test_not_sounds
      fun_eq_iff Let_def)

lemma append_unlimited_store:
  "append_entry e
     \<lparr>localStorage = Some (store_of v), mediaDevices = md, recordBtn = btn,
      boardEl = board, hasLocalStorage = True, recording = False, mediaRecorder = None,
      sounds = es\<rparr> =
      (None, \<lparr>localStorage = Some (store_of (Some (JSON_stringify (es @ [e])))),
              mediaDevices = md, recordBtn = btn, boardEl = board, hasLocalStorage = True,
              recording = False, mediaRecorder = None, sounds = es @ [e]\<rparr>)"
  by (simp add: append_entry_def setItem_def store_of_def unlimited_def fun_eq_iff)

lemma getItem_capped_store: "getItem (str ''sounds'') (capped_store n v) = v"
  by (simp add: getItem_def capped_store_def)

lemma getItem_store_of: "getItem (str ''sounds'') (store_of v) = v"
  by (simp add: getItem_def store_of_def)

lemma atob_hiss: "atob (data hiss) = Inl InvalidCharacterError"
  by (simp add: hiss_def base64_eval)

text \<open>
  Claim C3 says that for every catalog state and entries \<open>e1\<close>, \<open>e2\<close>, the append of \<open>e1\<close>,
  the append of \<open>e2\<close> and then a load from the same store return the prior entries, then
  \<open>e1\<close>, then \<open>e2\<close>. It fails on stores with a quota, in sessions that start with the
  storage available and the catalog empty.

  With a quota of 61 characters both writes are accepted: the store holds the 61
  characters of the catalog \<open>[clap, snap]\<close>. At the next load the test of line 226 would
  add 4 characters and is refused, \<open>checkForLocalStorage\<close> answers false (line 231), line 17
  skips the load, and the catalog is empty.

  With a quota of 40 characters the first write (35 characters) is accepted and the second
  is refused: \<^verbatim>\<open>setItem\<close> throws, the array in memory holds both entries, the store keeps
  the first one only, and the next load returns \<open>[clap]\<close>.
\<close>

theorem append_twice_then_load_counterexample:
  "hasLocalStorage (session (capped_store 61 None))
   \<and> sounds (session (capped_store 61 None)) = []
   \<and> fst (append_entry clap (session (capped_store 61 None))) = None
   \<and> fst (append_entry snap (snd (append_entry clap (session (capped_store 61 None))))) = None
   \<and> loaded (script (localStorage (snd (append_entry snap (snd (append_entry clap
        (session (capped_store 61 None))))))) True idle_button []) = Inr []
   \<and> hasLocalStorage (session (capped_store 40 None))
   \<and> sounds (session (capped_store 40 None)) = []
   \<and> fst (append_entry clap (session (capped_store 40 None))) = None
   \<and> fst (append_entry snap (snd (append_entry clap (session (capped_store 40 None)))))
       = Some QuotaExceededError
   \<and> sounds (snd (append_entry snap (snd (append_entry clap (session (capped_store 40 None))))))
       = [clap, snap]
   \<and> loaded (script (localStorage (snd (append_entry snap (snd (append_entry clap
        (session (capped_store 40 None))))))) True idle_button []) = Inr [clap]"
  unfolding session_def start_capped_store
  using catalog_of_entry_json[of "[clap]"]
  by (simp add: append_capped_store length_stringify_clap length_stringify_clap_snap
      script_def start_capped_store initUI_def loaded_def getItem_capped_store
      ToString_nullable_def JSON_parse_stringify)
     (simp add: clap_def base64toBlob_clap createSoundboardButton_def)

text \<open>
  An entry whose \<open>data\<close> is not base64 text is appended and written like another one, and
  at the next load \<^verbatim>\<open>atob\<close> throws on it: no catalog is returned.
\<close>

lemma undecodable_data_ends_load:
  "hasLocalStorage (session (store_of None))
   \<and> fst (append_entry hiss (session (store_of None))) = None
   \<and> fst (append_entry snap (snd (append_entry hiss (session (store_of None))))) = None
   \<and> loaded (script (localStorage (snd (append_entry snap (snd (append_entry hiss
        (session (store_of None))))))) True idle_button []) = Inl InvalidCharacterError"
  unfolding session_def start_store_of
  using catalog_of_entry_json[of "[hiss, snap]"]
  by (simp add: append_unlimited_store script_def start_store_of initUI_def loaded_def
      getItem_store_of ToString_nullable_def JSON_parse_stringify)
     (simp add: base64toBlob_def atob_hiss)

text \<open>
  In a session without storage the appends change the array in memory only, and the next
  load returns the empty catalog.
\<close>

lemma session_without_storage:
  "\<not> hasLocalStorage (session full_store)
   \<and> fst (append_entry clap (session full_store)) = None
   \<and> fst (append_entry snap (snd (append_entry clap (session full_store)))) = None
   \<and> sounds (snd (append_entry snap (snd (append_entry clap (session full_store)))))
       = [clap, snap]
   \<and> loaded (script (localStorage (snd (append_entry snap (snd (append_entry clap
        (session full_store)))))) True idle_button []) = Inr []"
  unfolding session_def start_full_store
  by (simp add: append_entry_def script_def start_full_store initUI_def loaded_def)

text \<open>
  Claim C3, amended. In a session with storage, after the append of \<open>e1\<close> and the append
  of \<open>e2\<close> whose write is not refused, the next load of the page from the same store, when
  the storage is still available at that load, returns the entries that the catalog held
  before, then \<open>e1\<close>, then \<open>e2\<close>: exactly \<open>[e1, e2]\<close> from an empty catalog. The \<open>data\<close> of
  the entries is text that \<^verbatim>\<open>atob\<close> decodes.
\<close>

theorem append_twice_then_load:
  assumes "hasLocalStorage s" and "localStorage s = Some st"
    and "append_entry e1 s = (r1, s1)" and "append_entry e2 s1 = (None, s2)"
    and "\<forall>e \<in> set (sounds s @ [e1, e2]). atob (data e) \<noteq> Inl InvalidCharacterError"
    and "fst (checkForLocalStorage (localStorage s2))"
  shows "\<exists>s'. script (localStorage s2) md btn board = Inr s'
           \<and> sounds s' = sounds s @ [e1, e2]"
proof -
  from assms(1-3) have s1: "hasLocalStorage s1" "sounds s1 = sounds s @ [e1]"
    and "\<exists>st1. localStorage s1 = Some st1"
    by (auto simp: append_entry_def Let_def split: sum.splits)
  then obtain st1 where st1: "localStorage s1 = Some st1" by blast
  from append_entry_store[OF s1(1) st1 assms(4)]
  obtain st2 where st2: "localStorage s2 = Some st2"
    and it: "items st2 (str ''sounds'') = Some (JSON_stringify (sounds s2))"
    and so: "sounds s2 = sounds s1 @ [e2]"
    by blast
  obtain ls' where c: "checkForLocalStorage (localStorage s2) = (True, ls')"
    using assms(6) by (cases "checkForLocalStorage (localStorage s2)") simp
  from checkForLocalStorage_cases[OF c] st2
  obtain st' where ls': "ls' = Some st'" and
    same: "items st' (str ''sounds'') = items st2 (str ''sounds'')"
    by auto
  let ?s0 = "start (localStorage s2) md btn board"
  have h: "hasLocalStorage ?s0" "localStorage ?s0 = Some st'"
    by (simp_all add: start_def c ls')
  have v: "\<forall>e \<in> set (sounds s2). atob (data e) \<noteq> Inl InvalidCharacterError"
    using assms(5) by (simp add: so s1)
  from initUI_stored_catalog[OF h _ v] same it
  show ?thesis
    by (simp add: script_def so s1)
qed

theorem append_twice_then_load_witness:
  "\<exists>s'. script (localStorage (snd (append_entry snap (snd (append_entry clap
            (start (Some (store_of None)) True idle_button [])))))) True idle_button [] = Inr s'
        \<and> sounds s' = [clap, snap]"
proof -
  let ?s = "start (Some (store_of None)) True idle_button []"
  let ?s1 = "snd (append_entry clap ?s)"
  let ?s2 = "snd (append_entry snap ?s1)"
  have h1: "hasLocalStorage ?s" and h2: "localStorage ?s = Some (store_of None)"
    and em: "sounds ?s = []"
    by (simp_all add: start_store_of)
  have h3: "append_entry clap ?s = (None, ?s1)"
    by (simp add: append_clap)
  have h4: "append_entry snap ?s1 = (None, ?s2)"
    by (simp add: append_clap append_snap)
  have h5: "\<forall>e \<in> set (sounds ?s @ [clap, snap]). atob (data e) \<noteq> Inl InvalidCharacterError"
    by (simp add: em atob_clap atob_snap)
  have h6: "fst (checkForLocalStorage (localStorage ?s2))"
    by (simp add: append_clap append_snap check_store_of)
  from append_twice_then_load [OF h1 h2 h3 h4 h5 h6, of True idle_button "[]"]
  show ?thesis by (simp add: em)
qed

text \<open>
  The scenario of the spec (section 8): a store that holds one entry named \<open>clap\<close> with the
  base64 text of the bytes 52 49 46 46 (hexadecimal).
\<close>

lemma JSON_parse_clap:
  \<open>JSON_parse (str ''[{"name":"clap","data":"UklGRg=="}]'') =
     Inr (JArray [JObject [(str ''name'', JString (str ''clap'')),
                           (str ''data'', JString (str ''UklGRg==''))]])\<close>
  using JSON_parse_stringify[of "[clap]"]
  by (simp add: stringify_clap) (simp add: entry_json_def clap_def)

lemma scenario_clap:
  \<open>script (Some (store_of (Some (str ''[{"name":"clap","data":"UklGRg=="}]'')))) md btn [] =
     Inr \<lparr>localStorage = Some (store_of (Some (str ''[{"name":"clap","data":"UklGRg=="}]''))),
          mediaDevices = md, recordBtn = btn,
          boardEl = [\<lparr>label = str ''clap'', soundBlob = [82, 73, 70, 70]\<rparr>],
          hasLocalStorage = True, recording = False, mediaRecorder = None,
          sounds = [\<lparr>name = str ''clap'', data = str ''UklGRg==''\<rparr>]\<rparr>\<close>
  unfolding script_def start_store_of
  by (simp add: initUI_def getItem_def store_of_def ToString_nullable_def JSON_parse_clap
      base64toBlob_clap createSoundboardButton_def)

text \<open>
  A stored number: on zero the script ends with the empty catalog, on another number with
  the \<open>TypeError\<close> of \<^verbatim>\<open>sounds.map\<close>.
\<close>

lemma JSON_parse_zero: "JSON_parse (str ''0'') = Inr (JNumber (str ''0''))"
  by (simp add: json_eval)

lemma JSON_parse_five: "JSON_parse (str ''5'') = Inr (JNumber (str ''5''))"
  by (simp add: json_eval)

lemma number_is_zero_examples:
  "number_is_zero (str ''0'')" "\<not> number_is_zero (str ''5'')"
  by (simp_all add: number_is_zero_def digits_value_def exponent_value_def scan_sign_def
      scan_int_def scan_frac_def scan_exp_def scan_digits_def is_digit_def str_def)

lemma load_stored_number:
  "script (Some (store_of (Some (str ''0'')))) md btn board =
     Inr (start (Some (store_of (Some (str ''0'')))) md btn board)
   \<and> script (Some (store_of (Some (str ''5'')))) md btn board = Inl TypeError"
  unfolding script_def start_store_of
  by (simp add: initUI_def getItem_store_of ToString_nullable_def JSON_parse_zero
      JSON_parse_five number_is_zero_examples)

section \<open>From a recording to the next load of the page\<close>

text \<open>
  A recording that is saved in an empty catalog and written to the store is found again
  by the next load of the page: the catalog holds its one entry, and its card on the board
  plays the bytes that were recorded.
\<close>

theorem recording_survives_reload:
  assumes "hasLocalStorage s" and "localStorage s = Some st" and "sounds s = []"
    and "save_recording chunks answer s = (None, s1)"
    and "fst (checkForLocalStorage (localStorage s1))"
  shows "\<exists>s'. script (localStorage s1) md btn [] = Inr s'
           \<and> sounds s' = [\<lparr>name = prompt_name answer, data = base64_encode (concat chunks)\<rparr>]
           \<and> boardEl s' = [\<lparr>label = prompt_name answer, soundBlob = concat chunks\<rparr>]"
proof -
  let ?e = "\<lparr>name = prompt_name answer, data = base64_encode (concat chunks)\<rparr>"
  let ?s0 = "createSoundboardButton (prompt_name answer) (concat chunks) s"
  have ap: "append_entry ?e ?s0 = (None, s1)"
    using assms(4)
    by (simp add: save_recording_def mediaRecorder_onstop_def reader_onloadend_def Let_def
        strip_data_url_readAsDataURL Blob_chunks)
  have h: "hasLocalStorage ?s0" "localStorage ?s0 = Some st" "sounds ?s0 = []"
    using assms(1-3) by (simp_all add: createSoundboardButton_def)
  from append_entry_store[OF h(1,2) ap] obtain st1 where
    st1: "localStorage s1 = Some st1"
    and it: "items st1 (str ''sounds'') = Some (JSON_stringify (sounds s1))"
    and so: "sounds s1 = [?e]"
    using h(3) by auto
  obtain ls' where c: "checkForLocalStorage (localStorage s1) = (True, ls')"
    using assms(5) by (cases "checkForLocalStorage (localStorage s1)") simp
  from checkForLocalStorage_cases[OF c] st1 obtain st' where
    ls': "ls' = Some st'" and same: "items st' (str ''sounds'') = items st1 (str ''sounds'')"
    by auto
  have s0: "start (localStorage s1) md btn [] =
      \<lparr>localStorage = Some st', mediaDevices = md, recordBtn = btn, boardEl = [],
       hasLocalStorage = True, recording = False, mediaRecorder = None, sounds = []\<rparr>"
    by (simp add: start_def c ls')
  have "script (localStorage s1) md btn [] =
      load_buttons [?e] (start (localStorage s1) md btn []\<lparr>sounds := [?e]\<rparr>)"
    unfolding script_def s0
    using JSON_parse_stringify[of "[?e]"] catalog_of_entry_json[of "[?e]"]
    by (simp add: initUI_def getItem_def same it so ToString_nullable_def)
  then show ?thesis
    unfolding s0 by (simp add: base64toBlob_encode createSoundboardButton_def)
qed

theorem recording_survives_reload_witness:
  "\<exists>s'. script (localStorage (snd (save_recording [[82, 73], [70, 70]] (Some (str ''clap''))
            (start (Some (store_of None)) True idle_button [])))) True idle_button [] = Inr s'
        \<and> sounds s' = [clap]
        \<and> boardEl s' = [\<lparr>label = str ''clap'', soundBlob = [82, 73, 70, 70]\<rparr>]"
proof -
  let ?s = "start (Some (store_of None)) True idle_button []"
  let ?r = "save_recording [[82, 73], [70, 70]] (Some (str ''clap'')) ?s"
  have h1: "hasLocalStorage ?s" and h2: "localStorage ?s = Some (store_of None)"
    and h3: "sounds ?s = []"
    by (simp_all add: start_store_of)
  have nm: "prompt_name (Some (str ''clap'')) = str ''clap''"
    by (simp add: prompt_name_def str_def)
  have ok: "fst ?r = None"
    unfolding start_store_of
    by (simp add: save_recording_def mediaRecorder_onstop_def reader_onloadend_def Let_def
        append_entry_def setItem_def store_of_def unlimited_def createSoundboardButton_def)
  have h4: "?r = (None, snd ?r)" using ok by (simp add: prod_eq_iff)
  have sto: "\<exists>v. localStorage (snd ?r) = Some (store_of v)"
    unfolding start_store_of
    by (auto simp: save_recording_def mediaRecorder_onstop_def reader_onloadend_def Let_def
        append_entry_def setItem_def store_of_def unlimited_def createSoundboardButton_def
        fun_eq_iff)
  then have h5: "fst (checkForLocalStorage (localStorage (snd ?r)))"
    by (auto simp: check_store_of)
  from recording_survives_reload [OF h1 h2 h3 h4 h5, of True idle_button]
  show ?thesis by (simp add: nm clap_def) (simp add: str_def base64_char_def pad_char_def)
qed

end
